theory Spec2Isabelle
  imports Complex_Main
begin

section \<open>JavaScript strings\<close>

text \<open>
  A JavaScript string is a sequence of 16-bit code units; it is modelled as a list of
  characters, a character standing for a code unit below 256 (the characters of
  ISO 8859-1). \<open>String.prototype.indexOf\<close> with a start position returns the smallest
  index, not below the (clamped) start, at which the search string occurs, and \<open>-1\<close>
  (here \<open>None\<close>) when there is none.
\<close>

definition occursAt :: "'a list \<Rightarrow> 'a list \<Rightarrow> nat \<Rightarrow> bool" where
  "occursAt text q k \<longleftrightarrow> k + length q \<le> length text \<and> take (length q) (drop k text) = q"

definition indexOf :: "'a list \<Rightarrow> 'a list \<Rightarrow> nat \<Rightarrow> nat option" where
  "indexOf text q start =
     List.find (occursAt text q) [min start (length text) ..< Suc (length text)]"

text \<open>
  \<open>String.prototype.toLowerCase\<close> is the language's. Search and replace take it as the
  parameter \<open>lower\<close>, a function from strings to strings of which nothing is fixed: it may
  fold any letters and may change the length of a string.

  \<open>toLowerCase\<close> below is what the function is on the strings of this model: the code
  units from \<open>A\<close> to \<open>Z\<close> and from U+00C0 to U+00DE, the multiplication sign U+00D7
  apart, have their lowercase form 32 places further on, and every other code unit below
  256 is its own. It is what the examples are evaluated with.
\<close>

definition lowerChar :: "char \<Rightarrow> char" where
  "lowerChar c =
     (let n = (of_char c :: nat)
      in if (65 \<le> n \<and> n \<le> 90) \<or> (192 \<le> n \<and> n \<le> 222 \<and> n \<noteq> 215)
         then char_of (n + 32) else c)"

definition toLowerCase :: "string \<Rightarrow> string" where
  "toLowerCase s = map lowerChar s"

section \<open>The document\<close>

text \<open>
  The editor's document is kept by ProseMirror. The part of it the inline engine works on
  is one text block (a paragraph) whose characters carry the marks Bold and Italic; it is
  modelled as the list of its characters, each with its two marks. The paragraph opens at
  position 0, its \<open>k\<close>-th character (from 0) lies between the positions \<open>k + 1\<close> and
  \<open>k + 2\<close>, and \<open>doc.content.size\<close> is the number of characters plus 2. Positions are
  integers, as the source computes with them. Marks other than Bold and Italic, and
  stored marks, are not part of the model.
\<close>

datatype mark = Bold | Italic

datatype cell = Cell (ch: char) (bold: bool) (italic: bool)

type_synonym document = "cell list"

fun hasMark :: "mark \<Rightarrow> cell \<Rightarrow> bool" where
  "hasMark Bold c = bold c"
| "hasMark Italic c = italic c"

fun setMark :: "mark \<Rightarrow> bool \<Rightarrow> cell \<Rightarrow> cell" where
  "setMark Bold v (Cell x b i) = Cell x v i"
| "setMark Italic v (Cell x b i) = Cell x b v"

definition sameMarks :: "cell \<Rightarrow> cell \<Rightarrow> bool" where
  "sameMarks c d \<longleftrightarrow> bold c = bold d \<and> italic c = italic d"

definition plain :: "string \<Rightarrow> document" where
  "plain s = map (\<lambda>x. Cell x False False) s"

definition contentSize :: "document \<Rightarrow> int" where
  "contentSize d = int (length d) + 2"

text \<open>\<open>doc.textBetween(from, to, '\n', '\n')\<close>: the characters between two positions.\<close>

definition cellsBetween :: "document \<Rightarrow> int \<Rightarrow> int \<Rightarrow> cell list" where
  "cellsBetween d f t = take (nat (t - max f 1)) (drop (nat (max f 1 - 1)) d)"

definition textBetween :: "document \<Rightarrow> int \<Rightarrow> int \<Rightarrow> string" where
  "textBetween d f t = map ch (cellsBetween d f t)"

text \<open>
  The call \<open>doc.textBetween(from, to)\<close> walks the children of the document until it has
  passed \<open>to\<close> (\<open>Fragment.nodesBetween\<close>). When \<open>to\<close> is greater than \<open>doc.content.size\<close> it
  reads a child that is not there and raises a \<open>TypeError\<close>; otherwise it returns the text
  above. Errors are values: \<open>Inl\<close> of the error raised, \<open>Inr\<close> of the result.
\<close>

datatype error = TypeError

definition docTextBetween :: "document \<Rightarrow> int \<Rightarrow> int \<Rightarrow> error + string" where
  "docTextBetween d f t = (if contentSize d < t then Inl TypeError else Inr (textBetween d f t))"

text \<open>\<open>$pos.nodeBefore\<close> and \<open>$pos.nodeAfter\<close>, as far as their marks go.\<close>

definition cellBefore :: "document \<Rightarrow> int \<Rightarrow> cell option" where
  "cellBefore d p = (if 2 \<le> p \<and> p \<le> int (length d) + 1 then Some (d ! nat (p - 2)) else None)"

definition cellAfter :: "document \<Rightarrow> int \<Rightarrow> cell option" where
  "cellAfter d p = (if 1 \<le> p \<and> p \<le> int (length d) then Some (d ! nat (p - 1)) else None)"

text \<open>
  \<open>$pos.marks()\<close>: Bold and Italic are declared \<open>inclusive: false\<close>, so a position has
  a mark only when the characters on both of its sides have it.
\<close>

definition marksAt :: "document \<Rightarrow> int \<Rightarrow> mark \<Rightarrow> bool" where
  "marksAt d p m =
     (case (cellBefore d p, cellAfter d p) of
        (Some b, Some a) \<Rightarrow> hasMark m b \<and> hasMark m a
      | _ \<Rightarrow> False)"

text \<open>
  The text nodes of the paragraph, as \<open>doc.descendants\<close> visits them: the maximal runs of
  characters with the same marks, each with the position where it starts.
\<close>

function textNodesFrom :: "int \<Rightarrow> document \<Rightarrow> (int \<times> cell list) list" where
  "textNodesFrom p [] = []"
| "textNodesFrom p (c # cs) =
     (p, c # takeWhile (sameMarks c) cs)
       # textNodesFrom (p + 1 + int (length (takeWhile (sameMarks c) cs)))
           (dropWhile (sameMarks c) cs)"
  by pat_completeness auto
termination
  by (relation "measure (\<lambda>(p, d). length d)") (auto simp: length_dropWhile_le less_Suc_eq_le)

definition textNodes :: "document \<Rightarrow> (int \<times> string) list" where
  "textNodes d = map (\<lambda>(p, cs). (p, map ch cs)) (textNodesFrom 1 d)"

subsection \<open>Transforms\<close>

text \<open>
  \<open>tr.insertText(text, pos)\<close> gives the new characters the marks of the position (an empty
  text inserts nothing); \<open>tr.delete(from, to)\<close> removes the characters of a range;
  \<open>tr.removeMark\<close> and \<open>tr.addMark\<close> clear and set a mark on the characters of a range.
\<close>

definition insertText :: "document \<Rightarrow> string \<Rightarrow> int \<Rightarrow> document" where
  "insertText d text p =
     take (nat (p - 1)) d
       @ map (\<lambda>x. Cell x (marksAt d p Bold) (marksAt d p Italic)) text
       @ drop (nat (p - 1)) d"

definition deleteRange :: "document \<Rightarrow> int \<Rightarrow> int \<Rightarrow> document" where
  "deleteRange d f t = (if f < t then take (nat (f - 1)) d @ drop (nat (t - 1)) d else d)"

fun onRange :: "(cell \<Rightarrow> cell) \<Rightarrow> int \<Rightarrow> int \<Rightarrow> int \<Rightarrow> document \<Rightarrow> document" where
  "onRange g f t p [] = []"
| "onRange g f t p (c # cs) = (if f \<le> p \<and> p < t then g c else c) # onRange g f t (p + 1) cs"

definition removeMark :: "document \<Rightarrow> int \<Rightarrow> int \<Rightarrow> mark \<Rightarrow> document" where
  "removeMark d f t m = onRange (setMark m False) f t 1 d"

definition addMark :: "document \<Rightarrow> int \<Rightarrow> int \<Rightarrow> mark \<Rightarrow> document" where
  "addMark d f t m = onRange (setMark m True) f t 1 d"

text \<open>
  A step map \<open>(start, oldSize, newSize)\<close> records that \<open>oldSize\<close> characters at \<open>start\<close>
  were replaced by \<open>newSize\<close> characters; \<open>mapping.map(pos, assoc)\<close> sends a position
  through the step maps of a transaction, in order.
\<close>

type_synonym stepMap = "int \<times> int \<times> int"

fun mapStep :: "stepMap \<Rightarrow> int \<Rightarrow> int \<Rightarrow> int" where
  "mapStep (start, oldSize, newSize) assoc pos =
     (if pos < start then pos
      else if pos \<le> start + oldSize then
        (let side = (if oldSize = 0 then assoc
                     else if pos = start then -1
                     else if pos = start + oldSize then 1
                     else assoc)
         in start + (if side < 0 then 0 else newSize))
      else pos + newSize - oldSize)"

definition mapPos :: "stepMap list \<Rightarrow> int \<Rightarrow> int \<Rightarrow> int" where
  "mapPos maps pos assoc = fold (\<lambda>m p. mapStep m assoc p) maps pos"

section \<open>Search and replace\<close>

text \<open>
  The loop of \<open>findAllMatches\<close> and of \<open>doSearch\<close> in source mode:
  \<^verbatim>\<open>
    let idx = text.indexOf(lowerQuery);
    while (idx !== -1) { results.push(...idx...); idx = text.indexOf(lowerQuery, idx + 1); }
  \<close>
  With an empty search string \<open>indexOf\<close> never returns \<open>-1\<close> and the loop does not end,
  so the loop is a partial function; both callers return before it when the query is empty.
\<close>

partial_function (option) scanLoop ::
  "'a list \<Rightarrow> 'a list \<Rightarrow> (nat \<Rightarrow> 'b) \<Rightarrow> nat option \<Rightarrow> 'b list \<Rightarrow> 'b list option" where
  "scanLoop text q push idx results =
     (case idx of
        None \<Rightarrow> Some results
      | Some i \<Rightarrow> scanLoop text q push (indexOf text q (i + 1)) (results @ [push i]))"

declare scanLoop.simps [code]

text \<open>\<open>findAllMatches(doc, query)\<close>: the loop runs in every text node; the ranges are sorted.\<close>

fun findInNodes ::
  "(string \<Rightarrow> string) \<Rightarrow> string \<Rightarrow> (int \<times> string) list \<Rightarrow> (int \<times> int) list
     \<Rightarrow> (int \<times> int) list option" where
  "findInNodes lower query [] results = Some results"
| "findInNodes lower query ((pos, nodeText) # nodes) results =
     (let lowerQuery = lower query; text = lower nodeText in
      case scanLoop text lowerQuery
             (\<lambda>idx. (pos + int idx, pos + int idx + int (length query)))
             (indexOf text lowerQuery 0) results of
        None \<Rightarrow> None
      | Some results' \<Rightarrow> findInNodes lower query nodes results')"

definition findAllMatches ::
  "(string \<Rightarrow> string) \<Rightarrow> document \<Rightarrow> string \<Rightarrow> (int \<times> int) list option" where
  "findAllMatches lower d query =
     (if query = [] then Some []
      else map_option (sort_key fst) (findInNodes lower query (textNodes d) []))"

text \<open>
  The search bar's state: the two input fields, the source textarea (its text and its
  selection), the editor's document and selection, and the match list with the index of
  the active match.
\<close>

record searchUi =
  isSource :: bool
  searchInput :: string
  replaceInput :: string
  sourceValue :: string
  sourceSelection :: "int \<times> int"
  editorDoc :: document
  editorSelection :: "int \<times> int"
  searchMarks :: "(int \<times> int) list"
  searchIndex :: int
  currentSearchQuery :: string

text \<open>JavaScript's \<open>%\<close> takes the sign of the dividend.\<close>

definition jsRem :: "int \<Rightarrow> int \<Rightarrow> int" where
  "jsRem a b = sgn a * (\<bar>a\<bar> mod \<bar>b\<bar>)"

definition minMax :: "int \<Rightarrow> int \<Rightarrow> int \<Rightarrow> int" where
  "minMax v lo hi = min (max v lo) hi"

text \<open>\<open>setTextSelection({ from, to })\<close> clamps both ends into the text block.\<close>

definition setTextSelection :: "document \<Rightarrow> int \<times> int \<Rightarrow> int \<times> int" where
  "setTextSelection d m =
     (let a = minMax (fst m) 1 (int (length d) + 1); b = minMax (snd m) 1 (int (length d) + 1)
      in (min a b, max a b))"

definition navigateSearchResult :: "int \<Rightarrow> searchUi \<Rightarrow> searchUi" where
  "navigateSearchResult index ui =
     (if searchMarks ui = [] then ui
      else
        let n = int (length (searchMarks ui));
            i = jsRem (jsRem index n + n) n;
            m = searchMarks ui ! nat i
        in if isSource ui then ui\<lparr>searchIndex := i, sourceSelection := m\<rparr>
           else ui\<lparr>searchIndex := i, editorSelection := setTextSelection (editorDoc ui) m\<rparr>)"

definition doSearch :: "(string \<Rightarrow> string) \<Rightarrow> searchUi \<Rightarrow> searchUi option" where
  "doSearch lower ui0 =
     (let query = searchInput ui0; ui = ui0\<lparr>currentSearchQuery := query\<rparr> in
      if query = [] then Some (ui\<lparr>searchMarks := [], searchIndex := -1\<rparr>)
      else if isSource ui then
        (let lowerText = lower (sourceValue ui); lowerQuery = lower query in
         case scanLoop lowerText lowerQuery (\<lambda>pos. pos) (indexOf lowerText lowerQuery 0) [] of
           None \<Rightarrow> None
         | Some positions \<Rightarrow>
             (let marks = map (\<lambda>p. (int p, int p + int (length query))) positions in
              case positions of
                [] \<Rightarrow> Some (ui\<lparr>searchMarks := marks, searchIndex := -1\<rparr>)
              | p0 # _ \<Rightarrow>
                  Some (ui\<lparr>searchMarks := marks, searchIndex := 0,
                           sourceSelection := (int p0, int p0 + int (length query))\<rparr>)))
      else
        (case findAllMatches lower (editorDoc ui) query of
           None \<Rightarrow> None
         | Some marks \<Rightarrow>
             if marks \<noteq> [] then
               Some (navigateSearchResult 0 (ui\<lparr>searchMarks := marks, searchIndex := 0\<rparr>))
             else Some (ui\<lparr>searchMarks := marks, searchIndex := -1\<rparr>)))"

text \<open>
  \<open>doReplaceAll\<close> in source mode: the text is rebuilt from the pieces between the matches,
  the next match being looked for after the end of the previous one.
  \<^verbatim>\<open>
    while (pos !== -1) {
        result += text.substring(lastEnd, pos) + replacement;
        lastEnd = pos + query.length;
        pos = lowerText.indexOf(lowerQuery, lastEnd);
    }
    result += text.substring(lastEnd);
  \<close>
\<close>

definition substring :: "'a list \<Rightarrow> nat \<Rightarrow> nat \<Rightarrow> 'a list" where
  "substring s a b = take (max a b - min a b) (drop (min a b) s)"

partial_function (option) replaceLoop ::
  "string \<Rightarrow> string \<Rightarrow> string \<Rightarrow> nat \<Rightarrow> string \<Rightarrow> nat option \<Rightarrow> string \<Rightarrow> nat
     \<Rightarrow> (string \<times> nat) option" where
  "replaceLoop text lowerText lowerQuery queryLength replacement pos result lastEnd =
     (case pos of
        None \<Rightarrow> Some (result, lastEnd)
      | Some p \<Rightarrow>
          replaceLoop text lowerText lowerQuery queryLength replacement
            (indexOf lowerText lowerQuery (p + queryLength))
            (result @ substring text lastEnd p @ replacement) (p + queryLength))"

declare replaceLoop.simps [code]

text \<open>
  In the editor the matches are replaced from the last to the first in one chain of
  commands: each match is selected, the selection is deleted and the replacement is
  inserted at the caret by \<open>insertContent\<close>, which parses its argument as HTML. A string
  in which no \<open><\<close> occurs parses to text alone, and the command then inserts the string
  itself with \<open>tr.insertText\<close>. What it makes of any other string is the editor
  library's, and is the parameter \<open>html\<close>: document, caret and string to the new document
  and caret. The search bar keeps the document and the selection of the editor only; the
  update handler that runs when the chain is dispatched is the reveal engine of the next
  section and is not part of these functions.
\<close>

type_synonym contentFn = "document \<Rightarrow> int \<Rightarrow> string \<Rightarrow> document \<times> int"

definition insertContent :: "contentFn \<Rightarrow> document \<Rightarrow> int \<Rightarrow> string \<Rightarrow> document \<times> int" where
  "insertContent html d p v =
     (if CHR ''<'' \<in> set v then html d p v
      else (if v = [] then d else insertText d v p, p + int (length v)))"

definition replaceMatch ::
  "contentFn \<Rightarrow> string \<Rightarrow> int \<times> int \<Rightarrow> document \<times> (int \<times> int) \<Rightarrow> document \<times> (int \<times> int)" where
  "replaceMatch html replacement m st =
     (let d = fst st;
          sel = setTextSelection d m;
          d' = deleteRange d (fst sel) (snd sel);
          inserted = insertContent html d' (fst sel) replacement;
          caret = snd inserted
      in (fst inserted, (caret, caret)))"

definition doReplaceAll ::
  "(string \<Rightarrow> string) \<Rightarrow> contentFn \<Rightarrow> searchUi \<Rightarrow> searchUi option" where
  "doReplaceAll lower html ui =
     (let query = searchInput ui; replacement = replaceInput ui in
      if query = [] \<or> searchMarks ui = [] then Some ui
      else if isSource ui then
        (let lowerQuery = lower query;
             text = sourceValue ui;
             lowerText = lower text in
         case replaceLoop text lowerText lowerQuery (length query) replacement
                (indexOf lowerText lowerQuery 0) [] 0 of
           None \<Rightarrow> None
         | Some (result, lastEnd) \<Rightarrow> doSearch lower (ui\<lparr>sourceValue := result @ drop lastEnd text\<rparr>))
      else
        (let st = fold (replaceMatch html replacement) (rev (searchMarks ui))
                    (editorDoc ui, editorSelection ui)
         in doSearch lower (ui\<lparr>editorDoc := fst st, editorSelection := snd st\<rparr>)))"


section \<open>Typora-style inline syntax editing\<close>

text \<open>
  The module's variables and the editor's state. \<open>_activeInlineReveal\<close> is \<open>null\<close> or an
  object \<open>{ markName, syntax, start, end }\<close> that may also hold \<open>semantic\<close>, \<open>leftLen\<close>
  and \<open>rightLen\<close>; the selection is given by its \<open>from\<close> and \<open>to\<close>, and is empty when
  they are equal. \<open>_inlineRevealLastKeyEvent\<close> holds the last key and its time.
\<close>

record reveal =
  markName :: mark
  syntaxText :: string
  start :: int
  endPos :: int
  semantic :: "mark option"
  leftLen :: "int option"
  rightLen :: "int option"

record editor =
  doc :: document
  selFrom :: int
  selTo :: int
  activeInlineReveal :: "reveal option"
  syncingInlineReveal :: bool
  inlineRevealJustExpanded :: bool
  inlineRevealLastKeyEvent :: "(string \<times> int) option"
  inlineRevealSuppressNextSelectionExpand :: bool
  isSourceMode :: bool
  wysiwygComposing :: bool

record candidate =
  candMark :: mark
  rangeFrom :: int
  rangeTo :: int
  candSyntax :: string

text \<open>
  What a handler is told of a transaction: whether it carries the engine's own tag
  \<open>inlineRevealSync\<close>, whether it changed the document, and its position mapping.
\<close>

record transaction =
  metaSync :: bool
  docChanged :: bool
  mapping :: "stepMap list"

fun otherMark :: "mark \<Rightarrow> mark" where
  "otherMark Bold = Italic"
| "otherMark Italic = Bold"

fun getRevealSyntax :: "mark \<Rightarrow> string" where
  "getRevealSyntax Bold = ''**''"
| "getRevealSyntax Italic = ''*''"

subsection \<open>The annotation range resolver\<close>

text \<open>
  \<open>getMarkRange\<close> is the editor library's; the resolver takes it as the parameter \<open>gmr\<close>
  (document, position and mark to the range found, if any). \<open>tryAt\<close> asks it only when
  the position, the node after it or the node before it has the mark.
\<close>

type_synonym markRangeFn = "document \<Rightarrow> int \<Rightarrow> mark \<Rightarrow> (int \<times> int) option"

definition tryAt :: "markRangeFn \<Rightarrow> document \<Rightarrow> int \<Rightarrow> mark \<Rightarrow> (int \<times> int) option" where
  "tryAt gmr d pos m =
     (let direct = marksAt d pos m;
          fromRight = (case cellAfter d pos of Some c \<Rightarrow> hasMark m c | None \<Rightarrow> False);
          fromLeft = (case cellBefore d pos of Some c \<Rightarrow> hasMark m c | None \<Rightarrow> False)
      in if \<not> (direct \<or> fromRight \<or> fromLeft) then None else gmr d pos m)"

definition findActiveMarkRange :: "markRangeFn \<Rightarrow> editor \<Rightarrow> mark \<Rightarrow> (int \<times> int) option" where
  "findActiveMarkRange gmr st m =
     (if selFrom st \<noteq> selTo st then None
      else
        let range0 = tryAt gmr (doc st) (selFrom st) m;
            range1 = (if range0 = None \<and> selFrom st > 1
                      then tryAt gmr (doc st) (selFrom st - 1) m else range0)
        in case range1 of
             None \<Rightarrow> None
           | Some r \<Rightarrow> if selFrom st < fst r \<or> selFrom st > snd r then None else Some r)"

definition mkCandidate :: "mark \<Rightarrow> int \<times> int \<Rightarrow> candidate" where
  "mkCandidate m r =
     \<lparr>candMark = m, rangeFrom = fst r, rangeTo = snd r, candSyntax = getRevealSyntax m\<rparr>"

definition findRevealCandidate :: "markRangeFn \<Rightarrow> editor \<Rightarrow> candidate option" where
  "findRevealCandidate gmr st =
     (case findActiveMarkRange gmr st Bold of
        Some r \<Rightarrow> Some (mkCandidate Bold r)
      | None \<Rightarrow>
          (case findActiveMarkRange gmr st Italic of
             Some r \<Rightarrow> Some (mkCandidate Italic r)
           | None \<Rightarrow> None))"

definition rightOutsideFor :: "markRangeFn \<Rightarrow> editor \<Rightarrow> mark \<Rightarrow> candidate option" where
  "rightOutsideFor gmr st m =
     (case tryAt gmr (doc st) (selFrom st - 1) m of
        None \<Rightarrow> None
      | Some r \<Rightarrow> if selFrom st = snd r + 1 then Some (mkCandidate m r) else None)"

definition findRevealCandidateRightOutside :: "markRangeFn \<Rightarrow> editor \<Rightarrow> candidate option" where
  "findRevealCandidateRightOutside gmr st =
     (if selFrom st \<noteq> selTo st then None
      else if selFrom st \<le> 1 then None
      else
        (case rightOutsideFor gmr st Bold of
           Some c \<Rightarrow> Some c
         | None \<Rightarrow> rightOutsideFor gmr st Italic))"

text \<open>
  One resolver the parameter can stand for: the maximal run of characters with the mark
  around the character after the position or, when that one lacks the mark, around the
  character before it.
\<close>

definition runAround :: "document \<Rightarrow> nat \<Rightarrow> mark \<Rightarrow> int \<times> int" where
  "runAround d i m =
     (int i + 1 - int (length (takeWhile (hasMark m) (rev (take i d)))),
      int i + 1 + int (length (takeWhile (hasMark m) (drop i d))))"

definition markRunAt :: markRangeFn where
  "markRunAt d pos m =
     (case cellAfter d pos of
        Some c \<Rightarrow>
          if hasMark m c then Some (runAround d (nat (pos - 1)) m)
          else (case cellBefore d pos of
                  Some b \<Rightarrow> if hasMark m b then Some (runAround d (nat (pos - 2)) m) else None
                | None \<Rightarrow> None)
      | None \<Rightarrow>
          (case cellBefore d pos of
             Some b \<Rightarrow> if hasMark m b then Some (runAround d (nat (pos - 2)) m) else None
           | None \<Rightarrow> None))"

subsection \<open>Expand\<close>

text \<open>
  \<open>expandInlineReveal(ed, candidate)\<close>. Before anything is changed the function reads the
  text on both sides of the range (lines 421 and 422):
  \<^verbatim>\<open>
    const hasLeft = range.from >= len && doc.textBetween(range.from - len, range.from, ...) === syntax;
    const hasRight = doc.textBetween(range.to, range.to + len, ...) === syntax;
  \<close>
  The second call is made whatever the first one gave, and \<open>range.to + len\<close> lies beyond the
  end of the document when the range ends less than \<open>len\<close> before it; the function then
  raises, with no variable assigned and no transaction dispatched. Otherwise the
  transaction is dispatched while \<open>_syncingInlineReveal\<close> is set, so the handlers it calls
  back return at once; the flag is clear again when the function returns.
\<close>

definition hasLeftDelimiter :: "document \<Rightarrow> candidate \<Rightarrow> error + bool" where
  "hasLeftDelimiter d cand =
     (if rangeFrom cand \<ge> int (length (candSyntax cand)) then
        (case docTextBetween d (rangeFrom cand - int (length (candSyntax cand))) (rangeFrom cand) of
           Inl e \<Rightarrow> Inl e
         | Inr found \<Rightarrow> Inr (found = candSyntax cand))
      else Inr False)"

definition hasRightDelimiter :: "document \<Rightarrow> candidate \<Rightarrow> error + bool" where
  "hasRightDelimiter d cand =
     (case docTextBetween d (rangeTo cand) (rangeTo cand + int (length (candSyntax cand))) of
        Inl e \<Rightarrow> Inl e
      | Inr found \<Rightarrow> Inr (found = candSyntax cand))"

definition expandInlineReveal :: "editor \<Rightarrow> candidate \<Rightarrow> error + editor" where
  "expandInlineReveal st cand =
     (if candSyntax cand = [] then Inr st
      else
        let m = candMark cand; syn = candSyntax cand;
            f = rangeFrom cand; t = rangeTo cand;
            len = int (length syn);
            oldPos = selFrom st;
            d = doc st
        in case hasLeftDelimiter d cand of
             Inl e \<Rightarrow> Inl e
           | Inr hasLeft \<Rightarrow>
               (case hasRightDelimiter d cand of
                  Inl e \<Rightarrow> Inl e
                | Inr hasRight \<Rightarrow>
                    if hasLeft \<and> hasRight then
                      Inr (st\<lparr>activeInlineReveal :=
                                Some \<lparr>markName = m, syntaxText = syn, start = f - len,
                                      endPos = t + len,
                                      semantic = None, leftLen = None, rightLen = None\<rparr>\<rparr>)
                    else
                      let d1 = insertText d syn t;
                          d2 = insertText d1 syn f;
                          d3 = removeMark d2 f t (otherMark m);
                          d4 = removeMark d3 f (f + len) m;
                          d5 = removeMark d4 (t + len) (t + 2 * len) m;
                          clampedPos = max f (min oldPos t);
                          newPos = (if oldPos = t then t + 2 * len
                                    else if oldPos > t then mapPos [(t, 0, len), (f, 0, len)] oldPos 1
                                    else clampedPos + len)
                      in Inr (st\<lparr>doc := d5, selFrom := newPos, selTo := newPos,
                                  activeInlineReveal :=
                                    Some \<lparr>markName = m, syntaxText = syn, start = f,
                                          endPos = t + 2 * len,
                                          semantic = Some m, leftLen = Some len,
                                          rightLen = Some len\<rparr>,
                                  inlineRevealJustExpanded := True,
                                  syncingInlineReveal := False\<rparr>)))"

subsection \<open>Collapse\<close>

text \<open>
  The string operations collapse and reconcile use. A regular expression
  \<open>/^D([\s\S]+)D$/\<close> for a literal delimiter \<open>D\<close> matches a segment that starts and
  ends with \<open>D\<close> and has at least one character between the two, which is its group.
\<close>

definition startsWith :: "string \<Rightarrow> string \<Rightarrow> bool" where
  "startsWith s p \<longleftrightarrow> take (length p) s = p"

definition endsWith :: "string \<Rightarrow> string \<Rightarrow> bool" where
  "endsWith s p \<longleftrightarrow> length p \<le> length s \<and> drop (length s - length p) s = p"

definition jsSlice :: "string \<Rightarrow> int \<Rightarrow> int \<Rightarrow> string" where
  "jsSlice s a b =
     (let n = int (length s);
          from = (if a < 0 then max (n + a) 0 else min a n);
          to = (if b < 0 then max (n + b) 0 else min b n)
      in take (nat (to - from)) (drop (nat from) s))"

definition matchDelimited :: "string \<Rightarrow> string \<Rightarrow> string option" where
  "matchDelimited delim segment =
     (if length segment \<ge> 2 * length delim + 1 \<and> startsWith segment delim \<and> endsWith segment delim
      then Some (take (length segment - 2 * length delim) (drop (length delim) segment))
      else None)"

definition orElse :: "'a option \<Rightarrow> 'a option \<Rightarrow> 'a option" where
  "orElse a b = (case a of Some x \<Rightarrow> Some x | None \<Rightarrow> b)"

text \<open>The parse of the absorbed segment in \<open>collapseInlineReveal\<close>: \<open>(parsedType, parsedInner)\<close>.\<close>

definition parseSegment :: "mark \<Rightarrow> string \<Rightarrow> (mark \<times> string) option" where
  "parseSegment m segment =
     (case m of
        Bold \<Rightarrow>
          (case orElse (matchDelimited ''**'' segment) (matchDelimited ''__'' segment) of
             Some inner \<Rightarrow> Some (Bold, inner)
           | None \<Rightarrow>
               (case orElse (matchDelimited ''*'' segment) (matchDelimited ''_'' segment) of
                  Some inner \<Rightarrow> Some (Italic, inner)
                | None \<Rightarrow>
                    if startsWith segment ''**'' \<and> endsWith segment ''*'' \<and> length segment \<ge> 3
                    then Some (Italic, jsSlice segment 2 (-1))
                    else if startsWith segment ''*'' \<and> endsWith segment ''**'' \<and> length segment \<ge> 3
                    then Some (Italic, jsSlice segment 1 (-2))
                    else if startsWith segment ''__'' \<and> endsWith segment ''_'' \<and> length segment \<ge> 3
                    then Some (Italic, jsSlice segment 2 (-1))
                    else if startsWith segment ''_'' \<and> endsWith segment ''__'' \<and> length segment \<ge> 3
                    then Some (Italic, jsSlice segment 1 (-2))
                    else None))
      | Italic \<Rightarrow>
          (case orElse (matchDelimited ''*'' segment) (matchDelimited ''_'' segment) of
             Some inner \<Rightarrow> Some (Italic, inner)
           | None \<Rightarrow>
               (case orElse (matchDelimited ''**'' segment) (matchDelimited ''__'' segment) of
                  Some inner \<Rightarrow> Some (Bold, inner)
                | None \<Rightarrow> None)))"

text \<open>
  The two absorbing loops run at most \<open>len\<close> times; the first argument counts the
  iterations that are left. Collapse and reconcile read the document at the span of the
  active reveal, and to the right of it only below \<open>doc.content.size\<close>; the text they read
  is given by \<open>textBetween\<close>.
\<close>

fun absorbLeftLoop :: "nat \<Rightarrow> document \<Rightarrow> string \<Rightarrow> int \<Rightarrow> int" where
  "absorbLeftLoop 0 d markerChar revealStart = revealStart"
| "absorbLeftLoop (Suc n) d markerChar revealStart =
     (if revealStart > 1 then
        (if textBetween d (revealStart - 1) revealStart \<noteq> markerChar then revealStart
         else absorbLeftLoop n d markerChar (revealStart - 1))
      else revealStart)"

fun absorbRightLoop :: "nat \<Rightarrow> document \<Rightarrow> string \<Rightarrow> int \<Rightarrow> int" where
  "absorbRightLoop 0 d markerChar revealEnd = revealEnd"
| "absorbRightLoop (Suc n) d markerChar revealEnd =
     (if revealEnd < contentSize d then
        (if textBetween d revealEnd (revealEnd + 1) \<noteq> markerChar then revealEnd
         else absorbRightLoop n d markerChar (revealEnd + 1))
      else revealEnd)"

definition absorbedStart :: "document \<Rightarrow> reveal \<Rightarrow> int" where
  "absorbedStart d r =
     absorbLeftLoop (length (syntaxText r)) d (take 1 (syntaxText r)) (start r)"

definition absorbedEnd :: "document \<Rightarrow> reveal \<Rightarrow> int" where
  "absorbedEnd d r =
     absorbRightLoop (length (syntaxText r)) d (take 1 (syntaxText r)) (endPos r)"

definition absorbedSegment :: "document \<Rightarrow> reveal \<Rightarrow> string" where
  "absorbedSegment d r = textBetween d (absorbedStart d r) (absorbedEnd d r)"

definition collapseInlineReveal :: "editor \<Rightarrow> editor" where
  "collapseInlineReveal st =
     (case activeInlineReveal st of
        None \<Rightarrow> st
      | Some r \<Rightarrow>
          let len = int (length (syntaxText r));
              d = doc st;
              revealStart = absorbedStart d r;
              revealEnd = absorbedEnd d r;
              segment = absorbedSegment d r;
              oldPos = selFrom st;
              parsed = parseSegment (markName r) segment;
              d1 = deleteRange d revealStart revealEnd;
              d2 = (case parsed of
                      Some (parsedType, parsedInner) \<Rightarrow>
                        if length parsedInner > 0 then
                          addMark
                            (removeMark (insertText d1 parsedInner revealStart)
                               revealStart (revealStart + int (length parsedInner))
                               (otherMark parsedType))
                            revealStart (revealStart + int (length parsedInner)) parsedType
                        else d1
                    | None \<Rightarrow> insertText d1 segment revealStart);
              insertedLen = (case parsed of
                               Some (parsedType, parsedInner) \<Rightarrow> int (length parsedInner)
                             | None \<Rightarrow> int (length segment));
              newPos = (if oldPos > revealEnd then oldPos - (revealEnd - revealStart) + insertedLen
                        else if oldPos \<ge> revealStart then
                          (case parsed of
                             Some _ \<Rightarrow> revealStart + max 0 (min ((oldPos - revealStart) - len) insertedLen)
                           | None \<Rightarrow> revealStart + max 0 (min (oldPos - revealStart) insertedLen))
                        else oldPos);
              caret = max 1 (min newPos (contentSize d2))
          in st\<lparr>doc := d2, selFrom := caret, selTo := caret,
                 syncingInlineReveal := False,
                 activeInlineReveal := None,
                 inlineRevealJustExpanded := False\<rparr>)"

subsection \<open>Reconcile\<close>

text \<open>
  The shape \<open>(target, leftLen, rightLen)\<close> that \<open>reconcileActiveBoldRevealMarks\<close> reads
  off the segment, with the branches in the order of the source.
\<close>

definition deriveShape :: "string \<Rightarrow> (mark \<times> int \<times> int) option" where
  "deriveShape segment =
     (if (startsWith segment ''**'' \<and> endsWith segment ''**'' \<and> length segment \<ge> 4)
         \<or> (startsWith segment ''__'' \<and> endsWith segment ''__'' \<and> length segment \<ge> 4)
      then Some (Bold, 2, 2)
      else if (startsWith segment ''*'' \<and> endsWith segment ''*'' \<and> length segment \<ge> 2)
         \<or> (startsWith segment ''_'' \<and> endsWith segment ''_'' \<and> length segment \<ge> 2)
      then Some (Italic, 1, 1)
      else if startsWith segment ''**'' \<and> endsWith segment ''*'' \<and> length segment \<ge> 3
      then Some (Italic, 2, 1)
      else if startsWith segment ''*'' \<and> endsWith segment ''**'' \<and> length segment \<ge> 3
      then Some (Italic, 1, 2)
      else if startsWith segment ''__'' \<and> endsWith segment ''_'' \<and> length segment \<ge> 3
      then Some (Italic, 2, 1)
      else if startsWith segment ''_'' \<and> endsWith segment ''__'' \<and> length segment \<ge> 3
      then Some (Italic, 1, 2)
      else None)"

definition reconcileActiveBoldRevealMarks :: "editor \<Rightarrow> bool \<times> editor" where
  "reconcileActiveBoldRevealMarks st =
     (case activeInlineReveal st of
        None \<Rightarrow> (False, st)
      | Some r \<Rightarrow>
          if markName r \<noteq> Bold then (False, st)
          else
            (case deriveShape (textBetween (doc st) (start r) (endPos r)) of
               None \<Rightarrow> (False, st)
             | Some (target, leftLen', rightLen') \<Rightarrow>
                 if semantic r = Some target \<and> leftLen r = Some leftLen' \<and> rightLen r = Some rightLen'
                 then (False, st)
                 else
                   let innerFrom = start r + leftLen'; innerTo = endPos r - rightLen' in
                   if innerFrom > innerTo then (False, st)
                   else
                     let d1 = removeMark (doc st) (start r) (endPos r) Bold;
                         d2 = removeMark d1 (start r) (endPos r) Italic;
                         d3 = (if innerFrom < innerTo then addMark d2 innerFrom innerTo target else d2)
                     in (True,
                         st\<lparr>doc := d3,
                            activeInlineReveal :=
                              Some (r\<lparr>semantic := Some target, leftLen := Some leftLen',
                                      rightLen := Some rightLen'\<rparr>),
                            syncingInlineReveal := False\<rparr>)))"

subsection \<open>The state machine\<close>

text \<open>
  \<open>syncInlineReveal(ed, transaction)\<close>, called by \<open>onUpdate\<close> with the transaction and by
  \<open>onSelectionUpdate\<close> without one; \<open>now\<close> is the value of \<open>Date.now()\<close>. It returns
  the error it raised, if any (the one of \<open>expandInlineReveal\<close>), and the state it left.
\<close>

definition recentKey :: "int \<Rightarrow> (string \<times> int) option \<Rightarrow> (string \<Rightarrow> bool) \<Rightarrow> bool" where
  "recentKey now ev ok = (case ev of None \<Rightarrow> False | Some (key, at') \<Rightarrow> now - at' < 220 \<and> ok key)"

definition remapReveal :: "transaction \<Rightarrow> reveal \<Rightarrow> reveal" where
  "remapReveal tr r =
     (let s = mapPos (mapping tr) (start r) (-1);
          e = mapPos (mapping tr) (endPos r) (-1)
      in r\<lparr>start := s, endPos := (if e < s then s else e)\<rparr>)"

text \<open>
  The function in four parts, in the order of the source: the bookkeeping after a
  transaction that changed the document (lines 669-677), the test for a recent typing or
  deleting key, the branch taken while a reveal is active, and the branch taken while
  none is.
\<close>

definition isMeta :: "transaction option \<Rightarrow> bool" where
  "isMeta transaction = (case transaction of Some tr \<Rightarrow> metaSync tr | None \<Rightarrow> False)"

definition changed :: "transaction option \<Rightarrow> bool" where
  "changed transaction = (case transaction of Some tr \<Rightarrow> docChanged tr | None \<Rightarrow> False)"

definition noteDocChange :: "editor \<Rightarrow> transaction option \<Rightarrow> editor" where
  "noteDocChange st transaction =
     (case transaction of
        None \<Rightarrow> st
      | Some tr \<Rightarrow>
          if docChanged tr then
            (case activeInlineReveal st of
               Some r \<Rightarrow> st\<lparr>inlineRevealSuppressNextSelectionExpand := True,
                              activeInlineReveal := Some (remapReveal tr r)\<rparr>
             | None \<Rightarrow> st\<lparr>inlineRevealSuppressNextSelectionExpand := True\<rparr>)
          else st)"

definition typedJustNow :: "int \<Rightarrow> editor \<Rightarrow> transaction option \<Rightarrow> bool" where
  "typedJustNow now st transaction \<longleftrightarrow>
     transaction = None
     \<and> recentKey now (inlineRevealLastKeyEvent st)
          (\<lambda>key. length key = 1 \<or> key = ''Backspace'' \<or> key = ''Delete'')"

definition syncActive :: "editor \<Rightarrow> reveal \<Rightarrow> editor" where
  "syncActive st r =
     (let empty = (selFrom st = selTo st);
          stillInside = (empty \<and> selFrom st \<ge> start r \<and> selFrom st \<le> endPos r);
          st' = (if inlineRevealJustExpanded st
                 then st\<lparr>inlineRevealJustExpanded := False\<rparr> else st)
      in if inlineRevealJustExpanded st \<and> stillInside then st'
         else if \<not> empty then collapseInlineReveal st'
         else if selFrom st < start r \<or> selFrom st > endPos r then collapseInlineReveal st'
         else st')"

definition syncInactive ::
  "markRangeFn \<Rightarrow> int \<Rightarrow> editor \<Rightarrow> transaction option \<Rightarrow> error option \<times> editor" where
  "syncInactive gmr now st transaction =
     (if selFrom st \<noteq> selTo st then (None, st)
      else if transaction = None \<and> inlineRevealSuppressNextSelectionExpand st
      then (None, st\<lparr>inlineRevealSuppressNextSelectionExpand := False\<rparr>)
      else
        let recentDelete = recentKey now (inlineRevealLastKeyEvent st)
                             (\<lambda>key. key = ''Backspace'' \<or> key = ''Delete'');
            candidate = (case findRevealCandidate gmr st of
                           Some c \<Rightarrow> Some c
                         | None \<Rightarrow>
                             if changed transaction \<and> recentDelete
                             then findRevealCandidateRightOutside gmr st else None)
        in (case candidate of
              Some c \<Rightarrow>
                (let st' = st\<lparr>inlineRevealSuppressNextSelectionExpand := False\<rparr> in
                 case expandInlineReveal st' c of
                   Inl e \<Rightarrow> (Some e, st')
                 | Inr st'' \<Rightarrow> (None, st''))
            | None \<Rightarrow> (None, st)))"

definition syncInlineReveal ::
  "markRangeFn \<Rightarrow> int \<Rightarrow> editor \<Rightarrow> transaction option \<Rightarrow> error option \<times> editor" where
  "syncInlineReveal gmr now st0 transaction =
     (if syncingInlineReveal st0 then
        (if isMeta transaction then (None, st0\<lparr>syncingInlineReveal := False\<rparr>) else (None, st0))
      else if isSourceMode st0 then (None, st0)
      else if isMeta transaction then (None, st0)
      else
        let st1 = noteDocChange st0 transaction;
            reconciled = (if activeInlineReveal st1 \<noteq> None \<and> changed transaction
                          then reconcileActiveBoldRevealMarks st1 else (False, st1))
        in
        if fst reconciled then (None, snd reconciled)
        else
          let st2 = snd reconciled in
          if typedJustNow now st2 transaction then (None, st2)
          else
            (case activeInlineReveal st2 of
               Some r \<Rightarrow> (None, syncActive st2 r)
             | None \<Rightarrow> syncInactive gmr now st2 transaction))"

text \<open>
  The editing surface's handlers for \<open>compositionstart\<close> and \<open>compositionend\<close>, and for
  \<open>blur\<close>.
\<close>

definition compositionstart :: "editor \<Rightarrow> editor" where
  "compositionstart st = st\<lparr>wysiwygComposing := True\<rparr>"

definition compositionend :: "editor \<Rightarrow> editor" where
  "compositionend st = st\<lparr>wysiwygComposing := False\<rparr>"

definition blur :: "editor \<Rightarrow> editor" where
  "blur st = (if activeInlineReveal st \<noteq> None then collapseInlineReveal st else st)"

section \<open>Switching between the editor and the source view\<close>

text \<open>
  \<open>toggleSourceMode\<close> carries the caret over by looking for the text before it in the
  other representation. The estimate of where it should land is computed with
  JavaScript numbers, which are IEEE 754 doubles:
  \<^verbatim>\<open>
    const approxRatio = cursorPos / Math.max(1, editor.state.doc.content.size);
    const approxMdPos = Math.round(approxRatio * md.length);
  \<close>
  The value of a division or a multiplication is the exact result rounded to the nearest
  number with a significand of 53 bits, a tie going to the even significand
  (\<open>toDouble\<close>; a number is given by its value, a rational). The operands here are
  positions and lengths of strings, integers below \<open>2^53\<close>, so the results are neither
  subnormal nor infinite and the exponent is left unbounded; the divisor is positive at
  both places. \<open>Math.round\<close> gives the nearest integer, a half going up.
\<close>

function bitLength :: "int \<Rightarrow> nat" where
  "bitLength n = (if n \<le> 0 then 0 else Suc (bitLength (n div 2)))"
  by pat_completeness auto
termination
  by (relation "measure nat") auto

declare bitLength.simps [simp del]

definition twoTo :: "int \<Rightarrow> rat" where
  "twoTo e = (if 0 \<le> e then 2 ^ nat e else 1 / 2 ^ nat (- e))"

text \<open>The exponent \<open>e\<close> of a positive number \<open>x\<close>: \<open>2^e \<le> x < 2^(e + 1)\<close>.\<close>

definition binaryExponent :: "rat \<Rightarrow> int" where
  "binaryExponent x =
     (let (p, q) = quotient_of x;
          e = int (bitLength p) - int (bitLength q)
      in if twoTo e \<le> x then e else e - 1)"

definition roundHalfEven :: "rat \<Rightarrow> int" where
  "roundHalfEven x =
     (let n = \<lfloor>x\<rfloor>; r = x - of_int n
      in if r < 1 / 2 then n else if 1 / 2 < r then n + 1 else if even n then n else n + 1)"

definition toDouble :: "rat \<Rightarrow> rat" where
  "toDouble x =
     (if x = 0 then 0
      else let ulp = twoTo (binaryExponent \<bar>x\<bar> - 52)
           in sgn x * of_int (roundHalfEven (\<bar>x\<bar> / ulp)) * ulp)"

definition mathRound :: "rat \<Rightarrow> int" where
  "mathRound x = \<lfloor>x + 1 / 2\<rfloor>"

text \<open>\<open>Math.round((a / b) * c)\<close> for integers \<open>a\<close>, \<open>b\<close> and \<open>c\<close>.\<close>

definition approxRatio :: "int \<Rightarrow> int \<Rightarrow> rat" where
  "approxRatio a b = toDouble (of_int a / of_int b)"

definition roundedShare :: "int \<Rightarrow> int \<Rightarrow> int \<Rightarrow> int" where
  "roundedShare a b c = mathRound (toDouble (approxRatio a b * of_int c))"

text \<open>
  The inner loop keeps the first occurrence whose end is strictly nearer the estimate
  than every occurrence before it (\<open>bestIdx\<close> and \<open>bestDist\<close>, \<open>None\<close> while
  \<open>bestIdx\<close> is \<open>-1\<close>):
  \<^verbatim>\<open>
    let idx = md.indexOf(search);
    while (idx !== -1) {
        const dist = Math.abs(idx + search.length - approxMdPos);
        if (dist < bestDist) { bestDist = dist; bestIdx = idx; }
        idx = md.indexOf(search, idx + 1);
    }
  \<close>
\<close>

definition nearer :: "string \<Rightarrow> int \<Rightarrow> (nat \<times> int) option \<Rightarrow> nat \<Rightarrow> (nat \<times> int) option" where
  "nearer search approx best idx =
     (let dist = \<bar>int idx + int (length search) - approx\<bar> in
      case best of
        None \<Rightarrow> Some (idx, dist)
      | Some (bestIdx, bestDist) \<Rightarrow> if dist < bestDist then Some (idx, dist) else best)"

partial_function (option) nearestLoop ::
  "string \<Rightarrow> string \<Rightarrow> int \<Rightarrow> nat option \<Rightarrow> (nat \<times> int) option \<Rightarrow> (nat \<times> int) option option" where
  "nearestLoop hay search approx idx best =
     (case idx of
        None \<Rightarrow> Some best
      | Some i \<Rightarrow>
          nearestLoop hay search approx (indexOf hay search (i + 1)) (nearer search approx best i))"

declare nearestLoop.simps [code]

text \<open>
  The outer loop, \<open>for (let len = Math.min(30, before.length); len >= 3; len--)\<close>, with
  \<open>search = before.slice(-len)\<close>: the first length with an occurrence gives the end of
  the occurrence kept by the inner loop, and \<open>None\<close> is returned when no length has one.
\<close>

fun keyLoop :: "nat \<Rightarrow> string \<Rightarrow> string \<Rightarrow> int \<Rightarrow> nat option option" where
  "keyLoop 0 preText hay approx = Some None"
| "keyLoop (Suc n) preText hay approx =
     (if Suc n < 3 then Some None
      else
        let search = drop (length preText - Suc n) preText in
        case nearestLoop hay search approx (indexOf hay search 0) None of
          None \<Rightarrow> None
        | Some None \<Rightarrow> keyLoop n preText hay approx
        | Some (Some (bestIdx, bestDist)) \<Rightarrow> Some (Some (bestIdx + length search)))"

text \<open>
  From the editor to the source view: the text before the caret is
  \<open>doc.textBetween(0, cursorPos)\<close>, the other representation is the Markdown text \<open>md\<close>
  that the converter made of the document, and the caret goes to offset 0 when nothing
  is found.
\<close>

definition caretInSource :: "document \<Rightarrow> int \<Rightarrow> string \<Rightarrow> nat option" where
  "caretInSource d cursorPos md =
     (let textBefore = textBetween d 0 cursorPos in
      if textBefore = [] then Some 0
      else
        let approxMdPos = roundedShare cursorPos (max 1 (contentSize d)) (int (length md)) in
        case keyLoop (min 30 (length textBefore)) textBefore md approxMdPos of
          None \<Rightarrow> None
        | Some None \<Rightarrow> Some 0
        | Some (Some targetPos) \<Rightarrow> Some targetPos)"

text \<open>
  From the source view to the editor: \<open>d\<close> is the document made of the Markdown text,
  \<open>plainBefore\<close> the text before the caret with its markup stripped. The end of the
  occurrence found in the document's text is turned into a position by the walk over the
  document's nodes, which counts one for the paragraph and then the characters of the
  text nodes; the caret goes to position 1 when nothing is found.
\<close>

fun walkNodes :: "int \<Rightarrow> (int \<times> string) list \<Rightarrow> int \<times> int \<Rightarrow> int \<times> int" where
  "walkNodes targetTextEnd [] acc = acc"
| "walkNodes targetTextEnd ((nodePos, nodeText) # nodes) (textCount, pmPos) =
     (if textCount \<ge> targetTextEnd then walkNodes targetTextEnd nodes (textCount, pmPos)
      else if targetTextEnd \<ge> textCount \<and> targetTextEnd \<le> textCount + int (length nodeText)
      then walkNodes targetTextEnd nodes (targetTextEnd, nodePos + (targetTextEnd - textCount))
      else walkNodes targetTextEnd nodes (textCount + int (length nodeText), pmPos))"

definition caretInEditor :: "string \<Rightarrow> int \<Rightarrow> string \<Rightarrow> document \<Rightarrow> int option" where
  "caretInEditor md caretPos plainBefore d =
     (let fullText = textBetween d 0 (contentSize d) in
      if plainBefore = [] then Some (min 1 (contentSize d))
      else
        let approxTextPos =
              (if length md > 0 then roundedShare caretPos (int (length md)) (int (length fullText))
               else 0)
        in
        case keyLoop (min 30 (length plainBefore)) plainBefore fullText approxTextPos of
          None \<Rightarrow> None
        | Some None \<Rightarrow> Some (min 1 (contentSize d))
        | Some (Some targetTextEnd) \<Rightarrow>
            Some (min (snd (walkNodes (int targetTextEnd) (textNodes d) (1, 1))) (contentSize d)))"

section \<open>Notions used in the statements\<close>

text \<open>
  The occurrences of a search string at or after an index, in increasing order; the
  matches they give in one text node, and in all text nodes of a document.
\<close>

definition occurrences :: "'a list \<Rightarrow> 'a list \<Rightarrow> nat \<Rightarrow> nat list" where
  "occurrences text q i = filter (occursAt text q) [i ..< Suc (length text)]"



text \<open>
  For the caret mapping: the key of a given length, the distance of an occurrence's end
  from the estimate, the leftmost occurrence at the least distance, and the first key
  length, from the greatest down to 3, that has an occurrence. \<open>strictlyCloser e1 e2 a b c\<close>
  says that \<open>e1\<close> is strictly nearer than \<open>e2\<close> to the exact value of \<open>a / b * c\<close>, for a
  positive \<open>b\<close>.
\<close>

definition keyOf :: "string \<Rightarrow> nat \<Rightarrow> string" where
  "keyOf preText n = drop (length preText - n) preText"

definition endDistance :: "string \<Rightarrow> int \<Rightarrow> nat \<Rightarrow> int" where
  "endDistance key approx i = \<bar>int i + int (length key) - approx\<bar>"

definition nearestEnd :: "string \<Rightarrow> string \<Rightarrow> int \<Rightarrow> nat \<Rightarrow> bool" where
  "nearestEnd hay key approx i \<longleftrightarrow>
     occursAt hay key i
     \<and> (\<forall>j. occursAt hay key j \<longrightarrow>
            endDistance key approx i \<le> endDistance key approx j
            \<and> (j < i \<longrightarrow> endDistance key approx i < endDistance key approx j))"

definition firstKeyLength :: "nat \<Rightarrow> string \<Rightarrow> string \<Rightarrow> nat option" where
  "firstKeyLength n preText hay =
     List.find (\<lambda>k. occurrences hay (keyOf preText k) 0 \<noteq> []) (rev [3 ..< Suc n])"

definition strictlyCloser :: "int \<Rightarrow> int \<Rightarrow> int \<Rightarrow> int \<Rightarrow> int \<Rightarrow> bool" where
  "strictlyCloser e1 e2 a b c \<longleftrightarrow> \<bar>e1 * b - a * c\<bar> < \<bar>e2 * b - a * c\<bar>"


definition keepIfAround :: "int \<Rightarrow> (int \<times> int) option \<Rightarrow> (int \<times> int) option" where
  "keepIfAround caret found =
     (case found of
        None \<Rightarrow> None
      | Some r \<Rightarrow> if fst r \<le> caret \<and> caret \<le> snd r then Some r else None)"

definition neighboursShare :: "document \<Rightarrow> int \<Rightarrow> int \<Rightarrow> mark \<Rightarrow> bool" where
  "neighboursShare d f t m =
     (case (cellBefore d f, cellAfter d t) of
        (Some b, Some a) \<Rightarrow> hasMark m b \<and> hasMark m a
      | _ \<Rightarrow> False)"

definition reannotated :: "document \<Rightarrow> int \<Rightarrow> int \<Rightarrow> mark \<Rightarrow> int \<Rightarrow> int \<Rightarrow> document" where
  "reannotated d s e target l r =
     map (\<lambda>(k, c).
            if s \<le> int k + 1 \<and> int k + 1 < e then
              Cell (ch c) (target = Bold \<and> s + l \<le> int k + 1 \<and> int k + 1 < e - r)
                          (target = Italic \<and> s + l \<le> int k + 1 \<and> int k + 1 < e - r)
            else c)
         (enumerate 0 d)"

text \<open>Documents and states the statements are evaluated on.\<close>

definition bolded :: "string \<Rightarrow> document" where
  "bolded s = map (\<lambda>x. Cell x True False) s"

definition italicised :: "string \<Rightarrow> document" where
  "italicised s = map (\<lambda>x. Cell x False True) s"

definition editorAt :: "document \<Rightarrow> int \<Rightarrow> int \<Rightarrow> editor" where
  "editorAt d a b =
     \<lparr>doc = d, selFrom = a, selTo = b, activeInlineReveal = None,
      syncingInlineReveal = False, inlineRevealJustExpanded = False,
      inlineRevealLastKeyEvent = None, inlineRevealSuppressNextSelectionExpand = False,
      isSourceMode = False, wysiwygComposing = False\<rparr>"

definition revealOf :: "mark \<Rightarrow> string \<Rightarrow> int \<Rightarrow> int \<Rightarrow> reveal" where
  "revealOf m syn s e =
     \<lparr>markName = m, syntaxText = syn, start = s, endPos = e, semantic = Some m,
      leftLen = Some (int (length syn)), rightLen = Some (int (length syn))\<rparr>"

definition sampleDoc :: document where
  "sampleDoc = plain ''ab'' @ bolded ''cd'' @ plain ''e''"

definition endDoc :: document where
  "endDoc = plain ''ab'' @ bolded ''cd''"




definition mixedBold :: editor where
  "mixedBold =
     (editorAt (plain ''*'' @ italicised ''*mi'' @ plain ''* z'') 8 8)
       \<lparr>activeInlineReveal :=
          Some \<lparr>markName = Bold, syntaxText = ''**'', start = 1, endPos = 6,
                semantic = Some Italic, leftLen = Some 1, rightLen = Some 1\<rparr>\<rparr>"

definition mixedItalic :: editor where
  "mixedItalic =
     (editorAt (plain ''**'' @ italicised ''mi'' @ plain ''* z'') 8 8)
       \<lparr>activeInlineReveal := Some (revealOf Italic ''*'' 1 6)\<rparr>"

definition brokenState :: editor where
  "brokenState =
     (editorAt (bolded ''a'' @ italicised ''b'' @ plain ''*'' @ bolded ''c'') 5 5)
       \<lparr>activeInlineReveal := Some (revealOf Italic ''*'' 2 4)\<rparr>"

definition italicReveal :: editor where
  "italicReveal =
     (editorAt (plain ''**'' @ italicised ''ab'' @ plain ''**'') 6 6)
       \<lparr>activeInlineReveal := Some (revealOf Italic ''*'' 1 7)\<rparr>"

definition boldReveal :: editor where
  "boldReveal =
     (editorAt (plain ''*'' @ bolded ''ab'' @ plain ''**'') 1 1)
       \<lparr>activeInlineReveal := Some (revealOf Bold ''**'' 1 7)\<rparr>"

definition deleteFirst :: transaction where
  "deleteFirst = \<lparr>metaSync = False, docChanged = True, mapping = [(1, 1, 0)]\<rparr>"

definition exDoc :: document where
  "exDoc = plain ''ababa'' @ bolded ''cdefghijklmnopqrstuvwxyz'' @ plain ''!''"

definition exMd :: string where
  "exMd = ''ababa**cdefghijklmnopqrstuvwxyz**!''"

definition exampleUi :: "bool \<Rightarrow> searchUi" where
  "exampleUi source =
     \<lparr>isSource = source, searchInput = ''at'', replaceInput = ''X'',
      sourceValue = ''The **cat** sat'', sourceSelection = (0, 0),
      editorDoc = plain ''The **cat** sat'', editorSelection = (1, 1),
      searchMarks = [], searchIndex = -1, currentSearchQuery = []\<rparr>"

section \<open>Search: ending and matches\<close>

lemma occursAt_bound: "occursAt text q k \<Longrightarrow> q \<noteq> [] \<Longrightarrow> k < length text"
  by (cases q) (auto simp: occursAt_def)

lemma indexOf_None_occurrences:
  assumes "indexOf text q i = None"
  shows "occurrences text q i = []"
proof -
  have "\<forall>k \<in> set [min i (length text) ..< Suc (length text)]. \<not> occursAt text q k"
    using assms by (auto simp: indexOf_def find_None_iff simp del: upt_Suc)
  then have "\<forall>k \<in> set [i ..< Suc (length text)]. \<not> occursAt text q k"
    by auto
  then show ?thesis
    unfolding occurrences_def by (simp add: filter_empty_conv del: upt_Suc)
qed

lemma indexOf_Some_first:
  assumes "indexOf text q i = Some j"
  shows "min i (length text) \<le> j" and "j \<le> length text" and "occursAt text q j"
    and "\<And>k. min i (length text) \<le> k \<Longrightarrow> k < j \<Longrightarrow> \<not> occursAt text q k"
proof -
  let ?xs = "[min i (length text) ..< Suc (length text)]"
  from assms obtain n where n: "n < length ?xs" "occursAt text q (?xs ! n)" "j = ?xs ! n"
    "\<forall>m<n. \<not> occursAt text q (?xs ! m)"
    unfolding indexOf_def find_Some_iff by blast
  have jn: "j = min i (length text) + n" using n(1,3) by (simp del: upt_Suc)
  show "min i (length text) \<le> j" using jn by simp
  show "j \<le> length text" using jn n(1) by simp
  show "occursAt text q j" using n(2,3) by simp
  show "\<not> occursAt text q k" if "min i (length text) \<le> k" "k < j" for k
  proof -
    have "k - min i (length text) < n" using that jn by arith
    moreover have "?xs ! (k - min i (length text)) = k"
      using that jn n(1) by (simp del: upt_Suc)
    ultimately show ?thesis using n(4) by metis
  qed
qed

lemma occurrences_split:
  assumes "indexOf text q i = Some j" and "q \<noteq> []"
  shows "occurrences text q i = j # occurrences text q (Suc j)"
proof -
  have jlt: "j < length text" using indexOf_Some_first(3)[OF assms(1)] assms(2) by (rule occursAt_bound)
  have ij: "i \<le> j" using indexOf_Some_first(1)[OF assms(1)] jlt by simp
  have none: "filter (occursAt text q) [i ..< j] = []"
    using indexOf_Some_first(4)[OF assms(1)] by (auto simp: filter_empty_conv)
  have "[i ..< Suc (length text)] = [i ..< j] @ [j ..< Suc (length text)]"
    using ij jlt upt_add_eq_append[of i j "Suc (length text) - j"] by simp
  moreover have "[j ..< Suc (length text)] = j # [Suc j ..< Suc (length text)]"
    using jlt by (simp add: upt_conv_Cons del: upt_Suc)
  ultimately show ?thesis
    unfolding occurrences_def using none indexOf_Some_first(3)[OF assms(1)]
    by (simp del: upt_Suc)
qed



lemma occurrences_sorted: "sorted_wrt (<) (occurrences text q i)"
  unfolding occurrences_def by (rule sorted_wrt_filter) (simp del: upt_Suc)










lemma length_plain: "length (plain s) = length s"
  by (simp add: plain_def)

text \<open>
  Claim C9. Over the text \<open>The **cat** sat\<close> the query \<open>at\<close> has exactly two matches,
  the ranges \<open>[8, 10)\<close> and \<open>[14, 16)\<close> of the editor's positions: they do not overlap and
  are in left-to-right order. After the search, \<open>doReplaceAll\<close> with the replacement \<open>X\<close>
  ends and leaves the text \<open>The **cX** sX\<close>, in the editor as in the source view. The
  replacement has no markup, so nothing depends on \<open>html\<close>.
\<close>

theorem replace_all_example:
  "findAllMatches toLowerCase (plain ''The **cat** sat'') ''at'' = Some [(8, 10), (14, 16)]
   \<and> map_option editorDoc
         (Option.bind (doSearch toLowerCase (exampleUi False)) (doReplaceAll toLowerCase html))
       = Some (plain ''The **cX** sX'')
   \<and> map_option sourceValue
         (Option.bind (doSearch toLowerCase (exampleUi True)) (doReplaceAll toLowerCase html))
       = Some ''The **cX** sX''"
proof -
  have a: "findAllMatches toLowerCase (plain ''The **cat** sat'') ''at'' = Some [(8, 10), (14, 16)]"
    by code_simp
  have a': "findAllMatches toLowerCase (plain ''The **cX** sX'') ''at'' = Some []"
    by code_simp
  have r: "replaceMatch html ''X'' (8, 10)
             (replaceMatch html ''X'' (14, 16) (plain ''The **cat** sat'', (8, 10)))
             = (plain ''The **cX** sX'', (9, 9))"
    by code_simp
  have b: "map_option editorDoc
             (Option.bind (doSearch toLowerCase (exampleUi False)) (doReplaceAll toLowerCase html))
             = Some (plain ''The **cX** sX'')"
    by (simp add: exampleUi_def doSearch_def doReplaceAll_def Let_def a a' r
          navigateSearchResult_def setTextSelection_def minMax_def jsRem_def length_plain)
  have c: "map_option sourceValue
             (Option.bind (doSearch toLowerCase (exampleUi True)) (doReplaceAll toLowerCase html))
             = Some ''The **cX** sX''"
    unfolding exampleUi_def by code_simp
  from a b c show ?thesis by simp
qed




section \<open>The caret mapping\<close>

text \<open>
  The estimate is rounded three times. With a caret at 17 of 28 and a target of length 42
  the exact value is 25.5, which \<open>Math.round\<close> would take to 26; the quotient rounded to
  a double and multiplied by 42 is 25.499999999999996, and the estimate is 25.
\<close>

lemma roundedShare_in_doubles:
  "approxRatio 17 28 = 5468656690378459 / 2 ^ 53
   \<and> toDouble (approxRatio 17 28 * 42) = 7177611906121727 / 2 ^ 48
   \<and> roundedShare 17 28 42 = 25"
  by code_simp

lemma nearestLoop_fold:
  assumes "search \<noteq> []"
  shows "nearestLoop hay search approx (indexOf hay search i) best
           = Some (foldl (nearer search approx) best (occurrences hay search i))"
proof (induction "Suc (length hay) - i" arbitrary: i best rule: less_induct)
  case less
  show ?case
  proof (cases "indexOf hay search i")
    case None
    then show ?thesis
      by (simp add: nearestLoop.simps indexOf_None_occurrences)
  next
    case (Some j)
    have jlt: "j < length hay"
      using indexOf_Some_first(3)[OF Some] assms by (rule occursAt_bound)
    have ij: "i \<le> j" using indexOf_Some_first(1)[OF Some] jlt by simp
    have "Suc (length hay) - Suc j < Suc (length hay) - i" using ij jlt by arith
    from less[OF this]
    have "nearestLoop hay search approx (indexOf hay search (Suc j)) (nearer search approx best j)
            = Some (foldl (nearer search approx) (nearer search approx best j)
                      (occurrences hay search (Suc j)))" .
    then show ?thesis
      using Some occurrences_split[OF Some assms]
      by (subst nearestLoop.simps) simp
  qed
qed

lemma nearer_fold_from:
  "\<exists>i. foldl (nearer key approx) (Some (i0, endDistance key approx i0)) xs
          = Some (i, endDistance key approx i)
       \<and> ((i = i0 \<and> (\<forall>j \<in> set xs. endDistance key approx i0 \<le> endDistance key approx j))
          \<or> (\<exists>ys zs. xs = ys @ i # zs
                \<and> endDistance key approx i < endDistance key approx i0
                \<and> (\<forall>j \<in> set ys. endDistance key approx i < endDistance key approx j)
                \<and> (\<forall>j \<in> set zs. endDistance key approx i \<le> endDistance key approx j)))"
proof (induction xs arbitrary: i0)
  case Nil
  show ?case by simp
next
  case (Cons x xs)
  let ?D = "endDistance key approx"
  show ?case
  proof (cases "?D x < ?D i0")
    case True
    then have step: "nearer key approx (Some (i0, ?D i0)) x = Some (x, ?D x)"
      by (simp add: nearer_def endDistance_def)
    from Cons.IH[of x] obtain i where
      f: "foldl (nearer key approx) (Some (x, ?D x)) xs = Some (i, ?D i)"
      and c: "(i = x \<and> (\<forall>j \<in> set xs. ?D x \<le> ?D j))
            \<or> (\<exists>ys zs. xs = ys @ i # zs \<and> ?D i < ?D x
                  \<and> (\<forall>j \<in> set ys. ?D i < ?D j) \<and> (\<forall>j \<in> set zs. ?D i \<le> ?D j))"
      by blast
    from c have "\<exists>ys zs. x # xs = ys @ i # zs \<and> ?D i < ?D i0
                  \<and> (\<forall>j \<in> set ys. ?D i < ?D j) \<and> (\<forall>j \<in> set zs. ?D i \<le> ?D j)"
    proof
      assume a: "i = x \<and> (\<forall>j \<in> set xs. ?D x \<le> ?D j)"
      then have "x # xs = [] @ i # xs \<and> ?D i < ?D i0
                  \<and> (\<forall>j \<in> set []. ?D i < ?D j) \<and> (\<forall>j \<in> set xs. ?D i \<le> ?D j)"
        using True by simp
      then show ?thesis by blast
    next
      assume "\<exists>ys zs. xs = ys @ i # zs \<and> ?D i < ?D x
                  \<and> (\<forall>j \<in> set ys. ?D i < ?D j) \<and> (\<forall>j \<in> set zs. ?D i \<le> ?D j)"
      then obtain ys zs where b: "xs = ys @ i # zs" "?D i < ?D x"
        "\<forall>j \<in> set ys. ?D i < ?D j" "\<forall>j \<in> set zs. ?D i \<le> ?D j" by blast
      then have "x # xs = (x # ys) @ i # zs \<and> ?D i < ?D i0
                  \<and> (\<forall>j \<in> set (x # ys). ?D i < ?D j) \<and> (\<forall>j \<in> set zs. ?D i \<le> ?D j)"
        using True by simp
      then show ?thesis by blast
    qed
    then show ?thesis using f step by auto
  next
    case False
    then have step: "nearer key approx (Some (i0, ?D i0)) x = Some (i0, ?D i0)"
      by (simp add: nearer_def endDistance_def)
    from Cons.IH[of i0] obtain i where
      f: "foldl (nearer key approx) (Some (i0, ?D i0)) xs = Some (i, ?D i)"
      and c: "(i = i0 \<and> (\<forall>j \<in> set xs. ?D i0 \<le> ?D j))
            \<or> (\<exists>ys zs. xs = ys @ i # zs \<and> ?D i < ?D i0
                  \<and> (\<forall>j \<in> set ys. ?D i < ?D j) \<and> (\<forall>j \<in> set zs. ?D i \<le> ?D j))"
      by blast
    from c have "(i = i0 \<and> (\<forall>j \<in> set (x # xs). ?D i0 \<le> ?D j))
            \<or> (\<exists>ys zs. x # xs = ys @ i # zs \<and> ?D i < ?D i0
                  \<and> (\<forall>j \<in> set ys. ?D i < ?D j) \<and> (\<forall>j \<in> set zs. ?D i \<le> ?D j))"
    proof
      assume "i = i0 \<and> (\<forall>j \<in> set xs. ?D i0 \<le> ?D j)"
      then show ?thesis using False by simp
    next
      assume "\<exists>ys zs. xs = ys @ i # zs \<and> ?D i < ?D i0
                  \<and> (\<forall>j \<in> set ys. ?D i < ?D j) \<and> (\<forall>j \<in> set zs. ?D i \<le> ?D j)"
      then obtain ys zs where b: "xs = ys @ i # zs" "?D i < ?D i0"
        "\<forall>j \<in> set ys. ?D i < ?D j" "\<forall>j \<in> set zs. ?D i \<le> ?D j" by blast
      then have "x # xs = (x # ys) @ i # zs \<and> ?D i < ?D i0
                  \<and> (\<forall>j \<in> set (x # ys). ?D i < ?D j) \<and> (\<forall>j \<in> set zs. ?D i \<le> ?D j)"
        using False by simp
      then show ?thesis by blast
    qed
    then show ?thesis using f step by auto
  qed
qed

lemma nearer_fold:
  assumes "xs \<noteq> []" and "sorted_wrt (<) xs"
  shows "\<exists>i d. foldl (nearer key approx) None xs = Some (i, d) \<and> i \<in> set xs
           \<and> (\<forall>j \<in> set xs. endDistance key approx i \<le> endDistance key approx j
                 \<and> (j < i \<longrightarrow> endDistance key approx i < endDistance key approx j))"
proof -
  let ?D = "endDistance key approx"
  obtain x xs' where xs: "xs = x # xs'" using assms(1) by (cases xs) auto
  have first: "nearer key approx None x = Some (x, ?D x)"
    by (simp add: nearer_def endDistance_def)
  from nearer_fold_from[of key approx x xs'] obtain i where
    f: "foldl (nearer key approx) (Some (x, ?D x)) xs' = Some (i, ?D i)"
    and c: "(i = x \<and> (\<forall>j \<in> set xs'. ?D x \<le> ?D j))
          \<or> (\<exists>ys zs. xs' = ys @ i # zs \<and> ?D i < ?D x
                \<and> (\<forall>j \<in> set ys. ?D i < ?D j) \<and> (\<forall>j \<in> set zs. ?D i \<le> ?D j))"
    by blast
  have lt: "\<forall>j \<in> set xs'. x < j" using assms(2) xs by simp
  from c have "i \<in> set xs \<and> (\<forall>j \<in> set xs. ?D i \<le> ?D j \<and> (j < i \<longrightarrow> ?D i < ?D j))"
  proof
    assume a: "i = x \<and> (\<forall>j \<in> set xs'. ?D x \<le> ?D j)"
    then show ?thesis using xs lt by auto
  next
    assume "\<exists>ys zs. xs' = ys @ i # zs \<and> ?D i < ?D x
                \<and> (\<forall>j \<in> set ys. ?D i < ?D j) \<and> (\<forall>j \<in> set zs. ?D i \<le> ?D j)"
    then obtain ys zs where b: "xs' = ys @ i # zs" "?D i < ?D x"
      "\<forall>j \<in> set ys. ?D i < ?D j" "\<forall>j \<in> set zs. ?D i \<le> ?D j" by blast
    have "sorted_wrt (<) (ys @ i # zs)" using assms(2) xs b(1) by simp
    then have after: "\<forall>j \<in> set zs. i < j" by (simp add: sorted_wrt_append)
    show ?thesis
      using xs b after by (auto simp: less_le)
  qed
  then show ?thesis using f first xs by auto
qed

lemma set_occurrences: "k \<in> set (occurrences hay key 0) \<longleftrightarrow> occursAt hay key k"
  by (auto simp: occurrences_def occursAt_def simp del: upt_Suc)

lemma keyLoop_spec:
  assumes "n \<le> length preText"
  shows "\<exists>res. keyLoop n preText hay approx = Some res
           \<and> (case firstKeyLength n preText hay of
                 None \<Rightarrow> res = None
               | Some L \<Rightarrow> \<exists>i. res = Some (i + L) \<and> nearestEnd hay (keyOf preText L) approx i)"
  using assms
proof (induction n)
  case 0
  show ?case by (simp add: firstKeyLength_def)
next
  case (Suc n)
  show ?case
  proof (cases "Suc n < 3")
    case True
    then have "[3 ..< Suc (Suc n)] = []" by simp
    then show ?thesis using True by (simp add: firstKeyLength_def del: upt_Suc)
  next
    case False
    let ?key = "keyOf preText (Suc n)"
    have len: "length ?key = Suc n" using Suc.prems by (simp add: keyOf_def)
    then have ne: "?key \<noteq> []" by auto
    have loop: "nearestLoop hay ?key approx (indexOf hay ?key 0) None
                  = Some (foldl (nearer ?key approx) None (occurrences hay ?key 0))"
      using nearestLoop_fold[OF ne] .
    have upt: "rev [3 ..< Suc (Suc n)] = Suc n # rev [3 ..< Suc n]"
      using False by simp
    show ?thesis
    proof (cases "occurrences hay ?key 0 = []")
      case True
      have "keyLoop (Suc n) preText hay approx = keyLoop n preText hay approx"
        using False loop True by (simp add: keyOf_def)
      moreover have "firstKeyLength (Suc n) preText hay = firstKeyLength n preText hay"
        unfolding firstKeyLength_def upt using True by simp
      ultimately show ?thesis using Suc.IH Suc.prems by simp
    next
      case occ: False
      from nearer_fold[OF occ occurrences_sorted, of ?key approx] obtain i d where
        f: "foldl (nearer ?key approx) None (occurrences hay ?key 0) = Some (i, d)"
        and i: "i \<in> set (occurrences hay ?key 0)"
        and m: "\<forall>j \<in> set (occurrences hay ?key 0).
                  endDistance ?key approx i \<le> endDistance ?key approx j
                  \<and> (j < i \<longrightarrow> endDistance ?key approx i < endDistance ?key approx j)"
        by blast
      have near: "nearestEnd hay ?key approx i"
        unfolding nearestEnd_def using i m by (simp add: set_occurrences)
      have "keyLoop (Suc n) preText hay approx = Some (Some (i + Suc n))"
        using False loop f len by (simp add: keyOf_def)
      moreover have "firstKeyLength (Suc n) preText hay = Some (Suc n)"
        unfolding firstKeyLength_def upt using occ by simp
      ultimately show ?thesis using near by simp
    qed
  qed
qed

lemma walkNodes_done: "walkNodes t nodes (t, x) = (t, x)"
  by (induction nodes) auto

lemma walkNodes_textNodes:
  assumes "p < t" and "t \<le> p + int (length d)"
  shows "walkNodes t (map (\<lambda>(q, cs). (q, map ch cs)) (textNodesFrom p d)) (p, x) = (t, t)"
  using assms
proof (induction p d arbitrary: x rule: textNodesFrom.induct)
  case (1 p)
  then show ?case by simp
next
  case (2 p c cs)
  let ?run = "takeWhile (sameMarks c) cs"
  let ?rest = "dropWhile (sameMarks c) cs"
  have len: "length ?run + length ?rest = length cs"
    by (metis length_append takeWhile_dropWhile_id)
  show ?case
  proof (cases "t \<le> p + 1 + int (length ?run)")
    case True
    then show ?thesis using "2.prems" by (simp add: walkNodes_done)
  next
    case False
    then have a: "p + 1 + int (length ?run) < t" by simp
    have b: "t \<le> p + 1 + int (length ?run) + int (length ?rest)"
      using "2.prems"(2) len by simp
    from "2.IH"[OF a b, of x] show ?thesis
      using "2.prems" False by (simp add: algebra_simps)
  qed
qed

lemma textBetween_all: "textBetween d 0 (contentSize d) = map ch d"
  by (simp add: textBetween_def cellsBetween_def contentSize_def)

lemma nearestEnd_bound:
  assumes "nearestEnd hay key approx i"
  shows "i + length key \<le> length hay"
  using assms by (simp add: nearestEnd_def occursAt_def)

lemma firstKeyLength_range:
  assumes "firstKeyLength n preText hay = Some L"
  shows "3 \<le> L \<and> L \<le> n"
proof -
  from assms have "L \<in> set (rev [3 ..< Suc n])"
    unfolding firstKeyLength_def by (metis find_Some_iff nth_mem)
  then show ?thesis by (simp del: upt_Suc)
qed

text \<open>
  Claim C8, as amended. The position mapper takes up to the last 30 characters of the
  text before the caret as the search key and shortens it down to 3 characters
  (\<open>firstKeyLength\<close>: the first length, from \<open>min(30, length)\<close> down to 3, whose key
  occurs in the other representation). For that length it returns the end of the leftmost
  occurrence whose end is nearest the integer \<open>Math.round((caret / lengthA) * lengthB)\<close>,
  the quotient and the product being those of double precision (\<open>nearestEnd\<close> with
  \<open>roundedShare\<close>); when no length from 30 down to 3 has an occurrence the caret goes to
  the start of the representation, offset 0 in the source view and position 1 in the
  editor. Both searches end. In the editor the position returned is the offset of that
  end in the document's text.
\<close>

theorem caret_mapping:
  "(\<exists>r. caretInSource d cursorPos md = Some r
      \<and> (case firstKeyLength (min 30 (length (textBetween d 0 cursorPos)))
                (textBetween d 0 cursorPos) md of
            None \<Rightarrow> r = 0
          | Some L \<Rightarrow>
              \<exists>i. r = i + L
                 \<and> nearestEnd md (keyOf (textBetween d 0 cursorPos) L)
                      (roundedShare cursorPos (max 1 (contentSize d)) (int (length md))) i))
   \<and> (\<exists>r. caretInEditor md caretPos plainBefore d = Some r
      \<and> (case firstKeyLength (min 30 (length plainBefore)) plainBefore (map ch d) of
            None \<Rightarrow> r = 1
          | Some L \<Rightarrow>
              \<exists>i. r = int (i + L)
                 \<and> nearestEnd (map ch d) (keyOf plainBefore L)
                      (if length md > 0
                       then roundedShare caretPos (int (length md)) (int (length d)) else 0) i))"
proof -
  let ?pre = "textBetween d 0 cursorPos"
  let ?a1 = "roundedShare cursorPos (max 1 (contentSize d)) (int (length md))"
  from keyLoop_spec[of "min 30 (length ?pre)" ?pre md ?a1] obtain res where
    k1: "keyLoop (min 30 (length ?pre)) ?pre md ?a1 = Some res"
    and s1: "case firstKeyLength (min 30 (length ?pre)) ?pre md of
               None \<Rightarrow> res = None
             | Some L \<Rightarrow> \<exists>i. res = Some (i + L) \<and> nearestEnd md (keyOf ?pre L) ?a1 i"
    by auto
  have first: "\<exists>r. caretInSource d cursorPos md = Some r
      \<and> (case firstKeyLength (min 30 (length ?pre)) ?pre md of
            None \<Rightarrow> r = 0
          | Some L \<Rightarrow> \<exists>i. r = i + L \<and> nearestEnd md (keyOf ?pre L) ?a1 i)"
  proof (cases "?pre = []")
    case True
    then show ?thesis by (simp add: caretInSource_def firstKeyLength_def)
  next
    case False
    then show ?thesis
      using k1 s1
      by (cases "firstKeyLength (min 30 (length ?pre)) ?pre md")
         (auto simp: caretInSource_def Let_def)
  qed
  let ?a2 = "if length md > 0 then roundedShare caretPos (int (length md)) (int (length d)) else 0"
  from keyLoop_spec[of "min 30 (length plainBefore)" plainBefore "map ch d" ?a2] obtain res2 where
    k2: "keyLoop (min 30 (length plainBefore)) plainBefore (map ch d) ?a2 = Some res2"
    and s2: "case firstKeyLength (min 30 (length plainBefore)) plainBefore (map ch d) of
               None \<Rightarrow> res2 = None
             | Some L \<Rightarrow> \<exists>i. res2 = Some (i + L) \<and> nearestEnd (map ch d) (keyOf plainBefore L) ?a2 i"
    by auto
  have ce: "caretInEditor md caretPos plainBefore d =
      (if plainBefore = [] then Some (min 1 (contentSize d))
       else case keyLoop (min 30 (length plainBefore)) plainBefore (map ch d) ?a2 of
              None \<Rightarrow> None
            | Some None \<Rightarrow> Some (min 1 (contentSize d))
            | Some (Some targetTextEnd) \<Rightarrow>
                Some (min (snd (walkNodes (int targetTextEnd) (textNodes d) (1, 1)))
                        (contentSize d)))"
    by (simp add: caretInEditor_def Let_def textBetween_all)
  have one: "min 1 (contentSize d) = 1" by (simp add: contentSize_def)
  have second: "\<exists>r. caretInEditor md caretPos plainBefore d = Some r
      \<and> (case firstKeyLength (min 30 (length plainBefore)) plainBefore (map ch d) of
            None \<Rightarrow> r = 1
          | Some L \<Rightarrow> \<exists>i. r = int (i + L) \<and> nearestEnd (map ch d) (keyOf plainBefore L) ?a2 i)"
  proof (cases "plainBefore = []")
    case True
    then show ?thesis
      using ce one by (simp add: firstKeyLength_def)
  next
    case ne: False
    show ?thesis
    proof (cases "firstKeyLength (min 30 (length plainBefore)) plainBefore (map ch d)")
      case None
      then show ?thesis
        using k2 s2 ne by (simp add: ce one)
    next
      case (Some L)
      with s2 obtain i where r2: "res2 = Some (i + L)"
        and near: "nearestEnd (map ch d) (keyOf plainBefore L) ?a2 i" by auto
      have L: "3 \<le> L \<and> L \<le> min 30 (length plainBefore)"
        using firstKeyLength_range[OF Some] .
      then have kl: "length (keyOf plainBefore L) = L" by (simp add: keyOf_def)
      have bound: "i + L \<le> length d"
        using nearestEnd_bound[OF near] kl by simp
      have walk: "walkNodes (int (i + L)) (textNodes d) (1, 1) = (int (i + L), int (i + L))"
        unfolding textNodes_def
        by (rule walkNodes_textNodes) (use L bound in simp_all)
      have "caretInEditor md caretPos plainBefore d = Some (int (i + L))"
        using k2 r2 ne walk bound
        by (simp add: ce contentSize_def)
      then show ?thesis using Some near by simp
    qed
  qed
  from first second show ?thesis by blast
qed

theorem caret_mapping_witness:
  "(\<exists>i. caretInSource exDoc 4 exMd = Some (i + 3) \<and> nearestEnd exMd ''aba'' 4 i)
   \<and> (\<exists>i. caretInEditor exMd 12 ''ababacdefg'' exDoc = Some (int (i + 10))
          \<and> nearestEnd (map ch exDoc) ''ababacdefg'' 11 i)"
proof -
  have k1: "firstKeyLength (min 30 (length (textBetween exDoc 0 4))) (textBetween exDoc 0 4) exMd
              = Some 3"
    by code_simp
  have k2: "keyOf (textBetween exDoc 0 4) 3 = ''aba''"
    "roundedShare 4 (max 1 (contentSize exDoc)) (int (length exMd)) = 4"
    by code_simp+
  have k3: "firstKeyLength (min 30 (length ''ababacdefg'')) ''ababacdefg'' (map ch exDoc) = Some 10"
    by code_simp
  have k4: "keyOf ''ababacdefg'' 10 = ''ababacdefg''"
    "(if length exMd > 0 then roundedShare 12 (int (length exMd)) (int (length exDoc)) else 0) = 11"
    by code_simp+
  have "(\<exists>r. caretInSource exDoc 4 exMd = Some r
            \<and> (\<exists>i. r = i + 3 \<and> nearestEnd exMd ''aba'' 4 i))
        \<and> (\<exists>r. caretInEditor exMd 12 ''ababacdefg'' exDoc = Some r
            \<and> (\<exists>i. r = int (i + 10) \<and> nearestEnd (map ch exDoc) ''ababacdefg'' 11 i))"
    using caret_mapping[where d = exDoc and cursorPos = 4 and md = exMd and caretPos = 12
                          and plainBefore = "''ababacdefg''"]
    by (simp only: k1 k2 k3 k4 option.case)
  then show ?thesis by blast
qed

text \<open>
  Claim C8, as first stated, measures the distance to the estimate
  \<open>caret / lengthA * lengthB\<close> itself. With the caret after \<open>aba\<close> in a document of size 32
  whose Markdown text has 34 characters the estimate is \<open>4 / 32 * 34 = 4.25\<close>, in
  double precision as in exact arithmetic. The key \<open>aba\<close> ends at the offsets 3 and 5 of
  the Markdown text; 5 is strictly nearer the estimate (\<open>strictlyCloser\<close> compares the two
  distances multiplied by 32), and the mapper returns 3, the first of the two ends at
  distance 1 from the rounded estimate 4.
\<close>

theorem caret_mapping_rounding_counterexample:
  "caretInSource exDoc 4 exMd = Some 3
   \<and> contentSize exDoc = 32 \<and> length exMd = 34
   \<and> textBetween exDoc 0 4 = ''aba''
   \<and> occursAt exMd ''aba'' 0 \<and> occursAt exMd ''aba'' 2
   \<and> toDouble (approxRatio 4 (contentSize exDoc) * of_int (int (length exMd))) = 17 / 4
   \<and> roundedShare 4 (contentSize exDoc) (int (length exMd)) = 4
   \<and> strictlyCloser (2 + 3) (0 + 3) 4 (contentSize exDoc) (int (length exMd))"
  by code_simp

section \<open>The reveal engine\<close>

lemma findActiveMarkRange_cases:
  "findActiveMarkRange gmr st m =
     (if selFrom st \<noteq> selTo st then None
      else keepIfAround (selFrom st)
             (case tryAt gmr (doc st) (selFrom st) m of
                Some r \<Rightarrow> Some r
              | None \<Rightarrow> if selFrom st > 1 then tryAt gmr (doc st) (selFrom st - 1) m else None))"
  by (auto simp: findActiveMarkRange_def keepIfAround_def Let_def split: option.splits)

lemma ch_setMark [simp]: "ch (setMark m v c) = ch c"
  by (cases c; cases m) simp_all

lemma hasMark_setMark: "hasMark k (setMark m v c) = (if k = m then v else hasMark k c)"
  by (cases c; cases m; cases k) simp_all

lemma length_onRange [simp]: "length (onRange g f t p d) = length d"
  by (induction d arbitrary: p) simp_all





lemma nth_onRange:
  "k < length d \<Longrightarrow>
     onRange g f t p d ! k = (if f \<le> p + int k \<and> p + int k < t then g (d ! k) else d ! k)"
proof (induction d arbitrary: p k)
  case Nil
  then show ?case by simp
next
  case (Cons c cs)
  show ?case
  proof (cases k)
    case 0
    then show ?thesis by simp
  next
    case (Suc j)
    then have "j < length cs" using Cons.prems by simp
    from Cons.IH[OF this, of "p + 1"] show ?thesis
      using Suc by (simp add: algebra_simps)
  qed
qed


lemma cellsBetween_mid:
  "cellsBetween (xs @ ys @ zs) (int (length xs) + 1) (int (length xs) + int (length ys) + 1) = ys"
  by (simp add: cellsBetween_def)

lemma deleteRange_mid:
  "deleteRange (xs @ ys @ zs) (int (length xs) + 1) (int (length xs) + int (length ys) + 1)
     = xs @ zs"
proof -
  have a: "nat (int (length xs) + 1 - 1) = length xs" by simp
  have b: "nat (int (length xs) + int (length ys) + 1 - 1) = length xs + length ys" by simp
  have "take (length xs) (xs @ ys @ zs) @ drop (length xs + length ys) (xs @ ys @ zs) = xs @ zs"
    by simp
  then show ?thesis
    unfolding deleteRange_def a b by (cases ys) simp_all
qed

lemma cellBefore_append:
  "cellBefore (xs @ zs) (int (length xs) + 1) = (if xs = [] then None else Some (last xs))"
  by (cases xs rule: rev_cases) (simp_all add: cellBefore_def nth_append nat_diff_distrib)

lemma cellAfter_append:
  "cellAfter (xs @ zs) (int (length xs) + 1) = (if zs = [] then None else Some (hd zs))"
  by (cases zs) (simp_all add: cellAfter_def nth_append)

lemma insertText_at:
  "insertText (xs @ zs) s (int (length xs) + 1)
     = xs @ map (\<lambda>x. Cell x (marksAt (xs @ zs) (int (length xs) + 1) Bold)
                              (marksAt (xs @ zs) (int (length xs) + 1) Italic)) s @ zs"
  by (simp add: insertText_def)

lemma split_at_positions:
  assumes "1 \<le> f" and "f \<le> t" and "t \<le> int (length d) + 1"
  shows "d = take (nat (f - 1)) d @ cellsBetween d f t @ drop (nat (t - 1)) d"
    and "int (length (take (nat (f - 1)) d)) + 1 = f"
    and "int (length (take (nat (f - 1)) d)) + int (length (cellsBetween d f t)) + 1 = t"
proof -
  have m: "max f 1 = f" using assms(1) by simp
  have e: "nat (t - 1) = nat (t - f) + nat (f - 1)" using assms by linarith
  have "drop (nat (t - 1)) d = drop (nat (t - f)) (drop (nat (f - 1)) d)"
    by (simp only: e drop_drop)
  moreover have "d = take (nat (f - 1)) d
                   @ (take (nat (t - f)) (drop (nat (f - 1)) d)
                      @ drop (nat (t - f)) (drop (nat (f - 1)) d))"
    by (simp only: append_take_drop_id)
  ultimately show "d = take (nat (f - 1)) d @ cellsBetween d f t @ drop (nat (t - 1)) d"
    by (simp only: cellsBetween_def m)
  show "int (length (take (nat (f - 1)) d)) + 1 = f" using assms by simp
  show "int (length (take (nat (f - 1)) d)) + int (length (cellsBetween d f t)) + 1 = t"
    using assms by (simp add: cellsBetween_def m)
qed

lemma absorbLeftLoop_bounds:
  "1 \<le> s \<Longrightarrow> 1 \<le> absorbLeftLoop n d mc s \<and> absorbLeftLoop n d mc s \<le> s"
proof (induction n arbitrary: s)
  case 0
  then show ?case by simp
next
  case (Suc n)
  show ?case
  proof (cases "s > 1 \<and> textBetween d (s - 1) s = mc")
    case True
    then have "1 \<le> s - 1" by simp
    from Suc.IH[OF this] True show ?thesis by simp
  next
    case False
    then show ?thesis using Suc.prems by auto
  qed
qed

lemma textBetween_nonempty_bound:
  assumes "textBetween d e (e + 1) \<noteq> []"
  shows "e \<le> int (length d)"
proof (rule ccontr)
  assume "\<not> e \<le> int (length d)"
  then have "length d \<le> nat (max e 1 - 1)" by linarith
  then have "drop (nat (max e 1 - 1)) d = []" by simp
  then show False using assms by (simp add: textBetween_def cellsBetween_def)
qed

lemma absorbRightLoop_bounds:
  "e \<le> int (length d) + 1 \<Longrightarrow> n = 0 \<or> mc \<noteq> [] \<Longrightarrow>
     e \<le> absorbRightLoop n d mc e \<and> absorbRightLoop n d mc e \<le> int (length d) + 1"
proof (induction n arbitrary: e)
  case 0
  then show ?case by simp
next
  case (Suc n)
  then have mc: "mc \<noteq> []" by simp
  show ?case
  proof (cases "e < contentSize d \<and> textBetween d e (e + 1) = mc")
    case True
    then have "e \<le> int (length d)" using textBetween_nonempty_bound[of d e] mc by simp
    then have "e + 1 \<le> int (length d) + 1" by simp
    from Suc.IH[OF this] mc True show ?thesis by simp
  next
    case False
    then show ?thesis using Suc.prems by auto
  qed
qed

lemma absorbed_bounds:
  assumes "1 \<le> start r" and "start r \<le> endPos r" and "endPos r \<le> int (length d) + 1"
  shows "1 \<le> absorbedStart d r" and "absorbedStart d r \<le> absorbedEnd d r"
    and "absorbedEnd d r \<le> int (length d) + 1"
proof -
  have l: "1 \<le> absorbedStart d r \<and> absorbedStart d r \<le> start r"
    unfolding absorbedStart_def using assms(1) by (rule absorbLeftLoop_bounds)
  have "length (syntaxText r) = 0 \<or> take 1 (syntaxText r) \<noteq> []" by (cases "syntaxText r") simp_all
  then have rr: "endPos r \<le> absorbedEnd d r \<and> absorbedEnd d r \<le> int (length d) + 1"
    unfolding absorbedEnd_def using assms(3) by (intro absorbRightLoop_bounds)
  show "1 \<le> absorbedStart d r" using l by simp
  show "absorbedStart d r \<le> absorbedEnd d r" using l rr assms(2) by linarith
  show "absorbedEnd d r \<le> int (length d) + 1" using rr by simp
qed

lemma marksAt_join:
  "marksAt (xs @ zs) (int (length xs) + 1) m
     = (xs \<noteq> [] \<and> zs \<noteq> [] \<and> hasMark m (last xs) \<and> hasMark m (hd zs))"
  by (auto simp: marksAt_def cellBefore_append cellAfter_append)

lemma neighboursShare_split:
  "neighboursShare (xs @ ys @ zs) (int (length xs) + 1) (int (length xs) + int (length ys) + 1) m
     = (xs \<noteq> [] \<and> zs \<noteq> [] \<and> hasMark m (last xs) \<and> hasMark m (hd zs))"
proof -
  have "cellAfter ((xs @ ys) @ zs) (int (length (xs @ ys)) + 1)
          = (if zs = [] then None else Some (hd zs))"
    by (rule cellAfter_append)
  then show ?thesis
    by (auto simp: neighboursShare_def cellBefore_append)
qed









lemma length_insertText: "length (insertText d s p) = length d + length s"
  by (simp add: insertText_def)

lemma docTextBetween_within:
  "t \<le> contentSize d \<Longrightarrow> docTextBetween d f t = Inr (textBetween d f t)"
  by (simp add: docTextBetween_def)

lemma hasRightDelimiter_within:
  assumes "rangeTo cand + int (length (candSyntax cand)) \<le> contentSize d"
  shows "hasRightDelimiter d cand
           = Inr (textBetween d (rangeTo cand) (rangeTo cand + int (length (candSyntax cand)))
                    = candSyntax cand)"
  using assms by (simp add: hasRightDelimiter_def docTextBetween_within)

lemma hasLeftDelimiter_within:
  assumes "rangeFrom cand \<le> contentSize d"
  shows "hasLeftDelimiter d cand
           = Inr (rangeFrom cand \<ge> int (length (candSyntax cand))
                  \<and> textBetween d (rangeFrom cand - int (length (candSyntax cand))) (rangeFrom cand)
                      = candSyntax cand)"
  using assms by (simp add: hasLeftDelimiter_def docTextBetween_within)

lemma hasRightDelimiter_beyond:
  assumes "contentSize d < rangeTo cand + int (length (candSyntax cand))"
  shows "hasRightDelimiter d cand = Inl TypeError"
  using assms by (simp add: hasRightDelimiter_def docTextBetween_def)

lemma expand_raises:
  assumes "candSyntax cand \<noteq> []"
    and "contentSize (doc st) < rangeTo cand + int (length (candSyntax cand))"
  shows "expandInlineReveal st cand = Inl TypeError"
proof (cases "hasLeftDelimiter (doc st) cand")
  case (Inl e)
  then show ?thesis
    using assms(1) by (cases e) (simp add: expandInlineReveal_def Let_def)
next
  case (Inr hl)
  then show ?thesis
    using assms(1) hasRightDelimiter_beyond[OF assms(2)]
    by (simp add: expandInlineReveal_def Let_def)
qed

lemma expand_inserts:
  assumes "candSyntax cand \<noteq> []"
    and "rangeFrom cand \<le> rangeTo cand"
    and "rangeTo cand + int (length (candSyntax cand)) \<le> contentSize (doc st)"
    and "\<not> (hasLeftDelimiter (doc st) cand = Inr True \<and> hasRightDelimiter (doc st) cand = Inr True)"
  shows "expandInlineReveal st cand =
     Inr (let m = candMark cand; syn = candSyntax cand;
              f = rangeFrom cand; t = rangeTo cand;
              len = int (length syn);
              oldPos = selFrom st;
              d5 = removeMark
                     (removeMark
                        (removeMark (insertText (insertText (doc st) syn t) syn f) f t (otherMark m))
                        f (f + len) m)
                     (t + len) (t + 2 * len) m;
              newPos = (if oldPos = t then t + 2 * len
                        else if oldPos > t then mapPos [(t, 0, len), (f, 0, len)] oldPos 1
                        else max f (min oldPos t) + len)
          in st\<lparr>doc := d5, selFrom := newPos, selTo := newPos,
                 activeInlineReveal :=
                   Some \<lparr>markName = m, syntaxText = syn, start = f, endPos = t + 2 * len,
                         semantic = Some m, leftLen = Some len, rightLen = Some len\<rparr>,
                 inlineRevealJustExpanded := True,
                 syncingInlineReveal := False\<rparr>)"
proof -
  have len: "0 \<le> int (length (candSyntax cand))" by simp
  have r: "hasRightDelimiter (doc st) cand
             = Inr (textBetween (doc st) (rangeTo cand)
                      (rangeTo cand + int (length (candSyntax cand))) = candSyntax cand)"
    using assms(3) by (rule hasRightDelimiter_within)
  have "rangeFrom cand \<le> contentSize (doc st)" using assms(2,3) len by linarith
  then have l: "hasLeftDelimiter (doc st) cand
             = Inr (rangeFrom cand \<ge> int (length (candSyntax cand))
                    \<and> textBetween (doc st) (rangeFrom cand - int (length (candSyntax cand)))
                          (rangeFrom cand) = candSyntax cand)"
    by (rule hasLeftDelimiter_within)
  show ?thesis
  proof (cases "hasLeftDelimiter (doc st) cand = Inr True
                \<and> hasRightDelimiter (doc st) cand = Inr True")
    case True
    then show ?thesis using assms(4) by simp
  next
    case False
    then have "\<not> ((rangeFrom cand \<ge> int (length (candSyntax cand))
                  \<and> textBetween (doc st) (rangeFrom cand - int (length (candSyntax cand)))
                        (rangeFrom cand) = candSyntax cand)
                 \<and> textBetween (doc st) (rangeTo cand)
                      (rangeTo cand + int (length (candSyntax cand))) = candSyntax cand)"
      unfolding l r by simp
    then show ?thesis
      using assms(1)
      by (simp only: expandInlineReveal_def Let_def l r sum.case if_False)
  qed
qed



lemma length_textBetween_le: "int (length (textBetween d f t)) \<le> max 0 (t - f)"
  by (simp add: textBetween_def cellsBetween_def)

lemma deriveShape_fits:
  assumes "deriveShape (textBetween d s e) = Some (target, l, r)"
  shows "s + l \<le> e - r" and "0 \<le> l" and "0 \<le> r"
proof -
  show "0 \<le> l" "0 \<le> r"
    using assms by (auto simp: deriveShape_def split: if_splits)
  have "l + r \<le> int (length (textBetween d s e))"
    using assms by (auto simp: deriveShape_def split: if_splits)
  moreover have "0 \<le> l" "0 \<le> r" "0 < l"
    using assms by (auto simp: deriveShape_def split: if_splits)
  ultimately show "s + l \<le> e - r" using length_textBetween_le[of d s e] by linarith
qed

lemma reannotated_eq:
  assumes "s + l \<le> e - r" and "0 \<le> l" and "0 \<le> r"
  shows "(if s + l < e - r
          then addMark (removeMark (removeMark d s e Bold) s e Italic) (s + l) (e - r) target
          else removeMark (removeMark d s e Bold) s e Italic)
         = reannotated d s e target l r"
proof (rule nth_equalityI)
  show "length (if s + l < e - r
          then addMark (removeMark (removeMark d s e Bold) s e Italic) (s + l) (e - r) target
          else removeMark (removeMark d s e Bold) s e Italic) = length (reannotated d s e target l r)"
    by (simp add: addMark_def removeMark_def reannotated_def)
next
  fix k
  assume "k < length (if s + l < e - r
          then addMark (removeMark (removeMark d s e Bold) s e Italic) (s + l) (e - r) target
          else removeMark (removeMark d s e Bold) s e Italic)"
  then have k: "k < length d" by (simp add: addMark_def removeMark_def split: if_splits)
  obtain x b i where c: "d ! k = Cell x b i" by (cases "d ! k")
  show "(if s + l < e - r
          then addMark (removeMark (removeMark d s e Bold) s e Italic) (s + l) (e - r) target
          else removeMark (removeMark d s e Bold) s e Italic) ! k = reannotated d s e target l r ! k"
    using k c assms
    by (cases target)
       (auto simp: addMark_def removeMark_def reannotated_def nth_onRange nth_enumerate_eq)
qed

lemma composing_outermost:
  "st\<lparr>wysiwygComposing := b, doc := d\<rparr> = st\<lparr>doc := d, wysiwygComposing := b\<rparr>"
  "st\<lparr>wysiwygComposing := b, selFrom := p\<rparr> = st\<lparr>selFrom := p, wysiwygComposing := b\<rparr>"
  "st\<lparr>wysiwygComposing := b, selTo := p\<rparr> = st\<lparr>selTo := p, wysiwygComposing := b\<rparr>"
  "st\<lparr>wysiwygComposing := b, activeInlineReveal := a\<rparr>
     = st\<lparr>activeInlineReveal := a, wysiwygComposing := b\<rparr>"
  "st\<lparr>wysiwygComposing := b, syncingInlineReveal := v\<rparr>
     = st\<lparr>syncingInlineReveal := v, wysiwygComposing := b\<rparr>"
  "st\<lparr>wysiwygComposing := b, inlineRevealJustExpanded := v\<rparr>
     = st\<lparr>inlineRevealJustExpanded := v, wysiwygComposing := b\<rparr>"
  "st\<lparr>wysiwygComposing := b, inlineRevealSuppressNextSelectionExpand := v\<rparr>
     = st\<lparr>inlineRevealSuppressNextSelectionExpand := v, wysiwygComposing := b\<rparr>"
  by simp_all

lemma composing_findActive:
  "findActiveMarkRange gmr (st\<lparr>wysiwygComposing := b\<rparr>) m = findActiveMarkRange gmr st m"
  by (simp add: findActiveMarkRange_def Let_def cong: option.case_cong if_cong)

lemma composing_rightOutsideFor:
  "rightOutsideFor gmr (st\<lparr>wysiwygComposing := b\<rparr>) m = rightOutsideFor gmr st m"
  by (simp add: rightOutsideFor_def cong: option.case_cong if_cong)

lemma composing_resolver:
  "findRevealCandidate gmr (st\<lparr>wysiwygComposing := b\<rparr>) = findRevealCandidate gmr st"
  "findRevealCandidateRightOutside gmr (st\<lparr>wysiwygComposing := b\<rparr>)
     = findRevealCandidateRightOutside gmr st"
  by (simp_all add: findRevealCandidate_def findRevealCandidateRightOutside_def
        composing_findActive composing_rightOutsideFor cong: option.case_cong if_cong)

lemma composing_expand:
  "expandInlineReveal (st\<lparr>wysiwygComposing := b\<rparr>) c
     = map_sum id (\<lambda>s. s\<lparr>wysiwygComposing := b\<rparr>) (expandInlineReveal st c)"
  by (simp add: expandInlineReveal_def Let_def composing_outermost split: sum.splits)

lemma composing_collapse:
  "collapseInlineReveal (st\<lparr>wysiwygComposing := b\<rparr>)
     = (collapseInlineReveal st)\<lparr>wysiwygComposing := b\<rparr>"
  by (cases "activeInlineReveal st")
     (simp_all add: collapseInlineReveal_def Let_def composing_outermost)

lemma composing_reconcile:
  "reconcileActiveBoldRevealMarks (st\<lparr>wysiwygComposing := b\<rparr>)
     = (fst (reconcileActiveBoldRevealMarks st),
        (snd (reconcileActiveBoldRevealMarks st))\<lparr>wysiwygComposing := b\<rparr>)"
  by (simp add: reconcileActiveBoldRevealMarks_def Let_def composing_outermost
        split: option.splits prod.splits)

lemma composing_noteDocChange:
  "noteDocChange (st\<lparr>wysiwygComposing := b\<rparr>) tr = (noteDocChange st tr)\<lparr>wysiwygComposing := b\<rparr>"
  by (simp add: noteDocChange_def composing_outermost split: option.splits)

lemma composing_syncActive:
  "syncActive (st\<lparr>wysiwygComposing := b\<rparr>) r = (syncActive st r)\<lparr>wysiwygComposing := b\<rparr>"
  by (simp add: syncActive_def Let_def composing_collapse composing_outermost)

lemma composing_syncInactive:
  "syncInactive gmr now (st\<lparr>wysiwygComposing := b\<rparr>) tr
     = apsnd (\<lambda>s. s\<lparr>wysiwygComposing := b\<rparr>) (syncInactive gmr now st tr)"
proof -
  have e: "expandInlineReveal (st\<lparr>inlineRevealSuppressNextSelectionExpand := False,
                                    wysiwygComposing := b\<rparr>) c
             = map_sum id (\<lambda>s. s\<lparr>wysiwygComposing := b\<rparr>)
                 (expandInlineReveal (st\<lparr>inlineRevealSuppressNextSelectionExpand := False\<rparr>) c)"
    for c
    by (rule composing_expand)
  have step:
    "(case expandInlineReveal (st\<lparr>inlineRevealSuppressNextSelectionExpand := False,
                                     wysiwygComposing := b\<rparr>) c of
        Inl e \<Rightarrow> (Some e, st\<lparr>inlineRevealSuppressNextSelectionExpand := False,
                               wysiwygComposing := b\<rparr>)
      | Inr st'' \<Rightarrow> (None, st''))
     = apsnd (\<lambda>s. s\<lparr>wysiwygComposing := b\<rparr>)
         (case expandInlineReveal (st\<lparr>inlineRevealSuppressNextSelectionExpand := False\<rparr>) c of
            Inl e \<Rightarrow> (Some e, st\<lparr>inlineRevealSuppressNextSelectionExpand := False\<rparr>)
          | Inr st'' \<Rightarrow> (None, st''))" for c
    unfolding e
    by (cases "expandInlineReveal (st\<lparr>inlineRevealSuppressNextSelectionExpand := False\<rparr>) c")
       simp_all
  show ?thesis
    by (auto simp: syncInactive_def Let_def composing_resolver step composing_outermost
          split: option.splits)
qed

lemma composing_typedJustNow:
  "typedJustNow now (st\<lparr>wysiwygComposing := b\<rparr>) tr = typedJustNow now st tr"
  by (simp add: typedJustNow_def)

lemma sync_composing:
  "syncInlineReveal gmr now (st\<lparr>wysiwygComposing := b\<rparr>) tr
     = apsnd (\<lambda>s. s\<lparr>wysiwygComposing := b\<rparr>) (syncInlineReveal gmr now st tr)"
proof -
  let ?st1 = "noteDocChange st tr"
  have a: "activeInlineReveal (?st1\<lparr>wysiwygComposing := b\<rparr>) = activeInlineReveal ?st1"
    by simp
  show ?thesis
    unfolding syncInlineReveal_def Let_def composing_noteDocChange
    by (simp add: composing_reconcile composing_typedJustNow composing_syncActive
          composing_syncInactive composing_outermost split: option.splits)
qed

lemma sync_suspended:
  assumes "syncingInlineReveal st \<or> isSourceMode st \<or> isMeta tr"
  shows "fst (syncInlineReveal gmr now st tr) = None
       \<and> doc (snd (syncInlineReveal gmr now st tr)) = doc st
       \<and> selFrom (snd (syncInlineReveal gmr now st tr)) = selFrom st
       \<and> selTo (snd (syncInlineReveal gmr now st tr)) = selTo st
       \<and> activeInlineReveal (snd (syncInlineReveal gmr now st tr)) = activeInlineReveal st"
  using assms unfolding syncInlineReveal_def by auto

lemma sync_reconciles:
  assumes "\<not> syncingInlineReveal st" and "\<not> isSourceMode st"
    and "docChanged tr" and "\<not> metaSync tr"
    and "activeInlineReveal st \<noteq> None"
    and "fst (reconcileActiveBoldRevealMarks (noteDocChange st (Some tr)))"
  shows "syncInlineReveal gmr now st (Some tr)
           = (None, snd (reconcileActiveBoldRevealMarks (noteDocChange st (Some tr))))"
proof -
  have "activeInlineReveal (noteDocChange st (Some tr)) \<noteq> None"
    using assms(3,5) by (auto simp: noteDocChange_def)
  then show ?thesis
    using assms unfolding syncInlineReveal_def Let_def
    by (simp add: isMeta_def changed_def)
qed

lemma suppress_clear:
  "\<not> inlineRevealSuppressNextSelectionExpand st \<Longrightarrow>
     st\<lparr>inlineRevealSuppressNextSelectionExpand := False\<rparr> = st"
  by (cases st) simp

lemma sync_expands:
  assumes "\<not> syncingInlineReveal st" and "\<not> isSourceMode st"
    and "activeInlineReveal st = None" and "selFrom st = selTo st"
    and "\<not> inlineRevealSuppressNextSelectionExpand st"
    and "\<not> typedJustNow now st None"
    and "findRevealCandidate gmr st = Some c"
    and "expandInlineReveal st c = Inr st'"
  shows "syncInlineReveal gmr now st None = (None, st')"
  using assms
  by (simp add: syncInlineReveal_def Let_def isMeta_def changed_def noteDocChange_def
        syncInactive_def suppress_clear)

lemma sync_collapses:
  assumes "\<not> syncingInlineReveal st" and "\<not> isSourceMode st"
    and "activeInlineReveal st = Some r" and "\<not> inlineRevealJustExpanded st"
    and "\<not> typedJustNow now st None"
    and "selFrom st \<noteq> selTo st \<or> selFrom st < start r \<or> endPos r < selFrom st"
  shows "syncInlineReveal gmr now st None = (None, collapseInlineReveal st)"
  using assms
  by (auto simp: syncInlineReveal_def Let_def isMeta_def changed_def noteDocChange_def
        syncActive_def)

text \<open>
  Claim C4. The annotation range resolver returns no range, and \<open>findRevealCandidate\<close> no
  candidate, whenever the selection is not empty; every range and every candidate it
  returns has the caret between its two ends, the ends included; and with an empty
  selection its answer is that of the library at the caret or, only when nothing resolves
  there and the caret is beyond position 1 (the start of the document's text), that of
  the library one offset to the left, kept when the caret lies within it.
\<close>

theorem resolver_contract:
  "(selFrom st \<noteq> selTo st \<longrightarrow>
      findActiveMarkRange gmr st m = None \<and> findRevealCandidate gmr st = None)
   \<and> (\<forall>r. findActiveMarkRange gmr st m = Some r \<longrightarrow> fst r \<le> selFrom st \<and> selFrom st \<le> snd r)
   \<and> (\<forall>c. findRevealCandidate gmr st = Some c \<longrightarrow>
          rangeFrom c \<le> selFrom st \<and> selFrom st \<le> rangeTo c)
   \<and> (selFrom st = selTo st \<longrightarrow>
        findActiveMarkRange gmr st m =
          keepIfAround (selFrom st)
            (case tryAt gmr (doc st) (selFrom st) m of
               Some r \<Rightarrow> Some r
             | None \<Rightarrow> if selFrom st > 1 then tryAt gmr (doc st) (selFrom st - 1) m else None))"
proof -
  have within: "fst r \<le> selFrom st \<and> selFrom st \<le> snd r"
    if "findActiveMarkRange gmr st k = Some r" for k r
    using that unfolding findActiveMarkRange_cases keepIfAround_def
    by (auto split: if_splits option.splits)
  have none: "findActiveMarkRange gmr st k = None" if "selFrom st \<noteq> selTo st" for k
    using that by (simp add: findActiveMarkRange_cases)
  have cand: "rangeFrom c \<le> selFrom st \<and> selFrom st \<le> rangeTo c"
    if "findRevealCandidate gmr st = Some c" for c
    using that within[of Bold] within[of Italic]
    by (auto simp: findRevealCandidate_def mkCandidate_def split: option.splits)
  show ?thesis
    using within none cand
    by (auto simp: findRevealCandidate_def findActiveMarkRange_cases)
qed

theorem resolver_contract_witness:
  "findActiveMarkRange (\<lambda>d p m. if p = 4 then Some (3, 5) else None) (editorAt sampleDoc 5 5) Bold
     = Some (3, 5)
   \<and> 3 \<le> selFrom (editorAt sampleDoc 5 5) \<and> selFrom (editorAt sampleDoc 5 5) \<le> 5
   \<and> findActiveMarkRange markRunAt (editorAt sampleDoc 3 5) Bold = None
   \<and> findRevealCandidate markRunAt (editorAt sampleDoc 3 5) = None"
proof -
  let ?g = "\<lambda>(d::document) (p::int) (m::mark). if p = 4 then Some (3::int, 5::int) else None"
  have a: "findActiveMarkRange ?g (editorAt sampleDoc 5 5) Bold = Some (3, 5)"
    by code_simp
  have b: "selFrom (editorAt sampleDoc 3 5) \<noteq> selTo (editorAt sampleDoc 3 5)"
    by (simp add: editorAt_def)
  from resolver_contract[of "editorAt sampleDoc 5 5" ?g Bold] a
  have "3 \<le> selFrom (editorAt sampleDoc 5 5) \<and> selFrom (editorAt sampleDoc 5 5) \<le> 5"
    by auto
  moreover from resolver_contract[of "editorAt sampleDoc 3 5" markRunAt Bold] b
  have "findActiveMarkRange markRunAt (editorAt sampleDoc 3 5) Bold = None
        \<and> findRevealCandidate markRunAt (editorAt sampleDoc 3 5) = None"
    by blast
  ultimately show ?thesis using a by simp
qed

text \<open>
  Claim C5. Take a candidate with a non-empty syntax whose range starts in the text block
  (at position 1 or after it), and the caret in its range. When \<open>range.to + len\<close> lies
  beyond the end of the document the function raises and nothing is inserted. Otherwise
  it returns, and when it inserts the delimiters (they are not already there on both
  sides) the document changes and the selection becomes a caret: past both markers, at
  \<open>range.to + 2 * len\<close>, when the caret was exactly at \<open>range.to\<close>; otherwise at the old
  position clamped into the range and shifted right by the length of the left marker,
  which for a caret within the range is the old position plus \<open>len\<close>, inside the inner
  text.
\<close>

theorem expand_caret_placement:
  assumes "candSyntax cand \<noteq> []"
    and "rangeFrom cand \<le> selFrom st" and "selFrom st \<le> rangeTo cand"
    and "1 \<le> rangeFrom cand"
  shows "(contentSize (doc st) < rangeTo cand + int (length (candSyntax cand)) \<longrightarrow>
            expandInlineReveal st cand = Inl TypeError)
       \<and> (rangeTo cand + int (length (candSyntax cand)) \<le> contentSize (doc st) \<longrightarrow>
            (\<exists>st'. expandInlineReveal st cand = Inr st'
               \<and> (\<not> (hasLeftDelimiter (doc st) cand = Inr True
                       \<and> hasRightDelimiter (doc st) cand = Inr True) \<longrightarrow>
                    doc st' \<noteq> doc st
                    \<and> selTo st' = selFrom st'
                    \<and> selFrom st'
                        = (if selFrom st = rangeTo cand
                           then rangeTo cand + 2 * int (length (candSyntax cand))
                           else max (rangeFrom cand) (min (selFrom st) (rangeTo cand))
                                  + int (length (candSyntax cand)))
                    \<and> (selFrom st < rangeTo cand \<longrightarrow>
                         selFrom st' = selFrom st + int (length (candSyntax cand))
                         \<and> rangeFrom cand + int (length (candSyntax cand)) \<le> selFrom st'
                         \<and> selFrom st' < rangeTo cand + int (length (candSyntax cand))))))"
proof (intro conjI impI)
  assume "contentSize (doc st) < rangeTo cand + int (length (candSyntax cand))"
  with assms(1) show "expandInlineReveal st cand = Inl TypeError" by (rule expand_raises)
next
  assume room: "rangeTo cand + int (length (candSyntax cand)) \<le> contentSize (doc st)"
  have ft: "rangeFrom cand \<le> rangeTo cand" using assms(2,3) by simp
  have "rangeFrom cand \<le> contentSize (doc st)" using ft room by linarith
  then obtain hl where hl: "hasLeftDelimiter (doc st) cand = Inr hl"
    using hasLeftDelimiter_within by blast
  obtain hr where hr: "hasRightDelimiter (doc st) cand = Inr hr"
    using hasRightDelimiter_within[OF room] by blast
  show "\<exists>st'. expandInlineReveal st cand = Inr st'
          \<and> (\<not> (hasLeftDelimiter (doc st) cand = Inr True
                  \<and> hasRightDelimiter (doc st) cand = Inr True) \<longrightarrow>
               doc st' \<noteq> doc st
               \<and> selTo st' = selFrom st'
               \<and> selFrom st'
                   = (if selFrom st = rangeTo cand
                      then rangeTo cand + 2 * int (length (candSyntax cand))
                      else max (rangeFrom cand) (min (selFrom st) (rangeTo cand))
                             + int (length (candSyntax cand)))
               \<and> (selFrom st < rangeTo cand \<longrightarrow>
                    selFrom st' = selFrom st + int (length (candSyntax cand))
                    \<and> rangeFrom cand + int (length (candSyntax cand)) \<le> selFrom st'
                    \<and> selFrom st' < rangeTo cand + int (length (candSyntax cand))))"
  proof (cases "hl \<and> hr")
    case True
    then show ?thesis
      using assms(1) hl hr by (simp add: expandInlineReveal_def Let_def)
  next
    case False
    then have nb: "\<not> (hasLeftDelimiter (doc st) cand = Inr True
                     \<and> hasRightDelimiter (doc st) cand = Inr True)"
      using hl hr by auto
    have grows: "length (removeMark
                     (removeMark
                        (removeMark
                           (insertText (insertText (doc st) (candSyntax cand) (rangeTo cand))
                              (candSyntax cand) (rangeFrom cand))
                           (rangeFrom cand) (rangeTo cand) (otherMark (candMark cand)))
                        (rangeFrom cand) (rangeFrom cand + int (length (candSyntax cand)))
                        (candMark cand))
                     (rangeTo cand + int (length (candSyntax cand)))
                     (rangeTo cand + 2 * int (length (candSyntax cand))) (candMark cand))
                  = length (doc st) + 2 * length (candSyntax cand)"
      by (simp add: removeMark_def length_insertText)
    have differs: "d' \<noteq> doc st" if "length d' = length (doc st) + 2 * length (candSyntax cand)" for d'
      using that assms(1) by auto
    show ?thesis
      using expand_inserts[OF assms(1) ft room nb] assms(2,3) differs[OF grows]
      by (auto simp: Let_def)
  qed
qed

theorem expand_caret_placement_witness:
  "map_sum id selFrom (expandInlineReveal (editorAt sampleDoc 5 5) (mkCandidate Bold (3, 5))) = Inr 9
   \<and> map_sum id selFrom (expandInlineReveal (editorAt sampleDoc 4 4) (mkCandidate Bold (3, 5))) = Inr 6
   \<and> map_sum id selFrom (expandInlineReveal (editorAt sampleDoc 3 3) (mkCandidate Bold (3, 5))) = Inr 5
   \<and> expandInlineReveal (editorAt endDoc 4 4) (mkCandidate Bold (3, 5)) = Inl TypeError"
proof -
  let ?c = "mkCandidate Bold (3, 5)"
  have c: "candSyntax ?c \<noteq> []" "rangeFrom ?c = 3" "rangeTo ?c = 5" "candSyntax ?c = ''**''"
    by (simp_all add: mkCandidate_def)
  have n: "\<not> (hasLeftDelimiter (doc (editorAt sampleDoc p p)) ?c = Inr True
              \<and> hasRightDelimiter (doc (editorAt sampleDoc p p)) ?c = Inr True)" for p
    by (simp add: editorAt_def) code_simp
  have s: "selFrom (editorAt d p p) = p" "doc (editorAt d p p) = d" for d p
    by (simp_all add: editorAt_def)
  have size: "contentSize sampleDoc = 7" "contentSize endDoc = 6" by code_simp+
  have "rangeFrom ?c \<le> selFrom (editorAt sampleDoc 5 5)" "selFrom (editorAt sampleDoc 5 5) \<le> rangeTo ?c"
    "1 \<le> rangeFrom ?c"
    by (simp_all add: c s)
  from expand_caret_placement[OF c(1) this] n[of 5]
  have a: "map_sum id selFrom (expandInlineReveal (editorAt sampleDoc 5 5) ?c) = Inr 9"
    by (auto simp: c s size)
  have "rangeFrom ?c \<le> selFrom (editorAt sampleDoc 4 4)" "selFrom (editorAt sampleDoc 4 4) \<le> rangeTo ?c"
    "1 \<le> rangeFrom ?c"
    by (simp_all add: c s)
  from expand_caret_placement[OF c(1) this] n[of 4]
  have b: "map_sum id selFrom (expandInlineReveal (editorAt sampleDoc 4 4) ?c) = Inr 6"
    by (auto simp: c s size)
  have "rangeFrom ?c \<le> selFrom (editorAt sampleDoc 3 3)" "selFrom (editorAt sampleDoc 3 3) \<le> rangeTo ?c"
    "1 \<le> rangeFrom ?c"
    by (simp_all add: c s)
  from expand_caret_placement[OF c(1) this] n[of 3]
  have d: "map_sum id selFrom (expandInlineReveal (editorAt sampleDoc 3 3) ?c) = Inr 5"
    by (auto simp: c s size)
  have "rangeFrom ?c \<le> selFrom (editorAt endDoc 4 4)" "selFrom (editorAt endDoc 4 4) \<le> rangeTo ?c"
    "1 \<le> rangeFrom ?c"
    by (simp_all add: c s)
  from expand_caret_placement[OF c(1) this]
  have e: "expandInlineReveal (editorAt endDoc 4 4) ?c = Inl TypeError"
    by (simp add: c s size)
  from a b d e show ?thesis by simp
qed




text \<open>
  Claim C2, evaluated. In \<open>mixedBold\<close> a bold reveal over \<open>**mi**\<close> has lost one closing
  marker and has been reconciled; in \<open>mixedItalic\<close> an italic reveal over \<open>*mi*\<close> has
  gained an opening marker. In both the absorbed span reads \<open>**mi*\<close>, two markers on the
  left and one on the right, before the plain text \<open> z\<close>, and the caret is outside it.
  Whether the reveal was recorded as Bold or as Italic, the parse takes the span for an
  italic one with a single marker on each side, and collapse leaves the text \<open>*mi z\<close>
  with Italic over \<open>*mi\<close>: one marker character stays in the document, where the claim
  has Italic over \<open>mi\<close> and none.
\<close>

theorem collapse_mixed_delimiters_example:
  "map_option markName (activeInlineReveal mixedBold) = Some Bold
   \<and> map_option (absorbedSegment (doc mixedBold)) (activeInlineReveal mixedBold) = Some ''**mi*''
   \<and> parseSegment Bold ''**mi*'' = Some (Italic, ''*mi'')
   \<and> doc (collapseInlineReveal mixedBold) = italicised ''*mi'' @ plain '' z''
   \<and> map_option markName (activeInlineReveal mixedItalic) = Some Italic
   \<and> map_option (absorbedSegment (doc mixedItalic)) (activeInlineReveal mixedItalic)
       = Some ''**mi*''
   \<and> parseSegment Italic ''**mi*'' = Some (Italic, ''*mi'')
   \<and> doc (collapseInlineReveal mixedItalic) = italicised ''*mi'' @ plain '' z''"
  by code_simp

text \<open>
  Claim C3, as amended. For an active reveal whose span lies in the text block and whose
  absorbed segment matches none of the delimiter patterns, collapse puts the segment back
  verbatim and adds no annotation of its own: the text of the document is unchanged, the
  absorbed range reads as before, the characters before and after it are untouched, and
  each re-inserted character has a mark exactly when the characters on both sides of the
  absorbed range have it (\<open>neighboursShare\<close>); so it has none at an edge of the text block
  or beside a character without the mark.
\<close>

theorem collapse_keeps_unparsed_text:
  assumes active: "activeInlineReveal st = Some r"
    and span: "1 \<le> start r" "start r \<le> endPos r" "endPos r \<le> int (length (doc st)) + 1"
    and unparsed: "parseSegment (markName r) (absorbedSegment (doc st) r) = None"
  shows "map ch (doc (collapseInlineReveal st)) = map ch (doc st)
       \<and> textBetween (doc (collapseInlineReveal st))
            (absorbedStart (doc st) r) (absorbedEnd (doc st) r)
           = absorbedSegment (doc st) r
       \<and> take (nat (absorbedStart (doc st) r - 1)) (doc (collapseInlineReveal st))
           = take (nat (absorbedStart (doc st) r - 1)) (doc st)
       \<and> drop (nat (absorbedEnd (doc st) r - 1)) (doc (collapseInlineReveal st))
           = drop (nat (absorbedEnd (doc st) r - 1)) (doc st)
       \<and> (\<forall>c \<in> set (cellsBetween (doc (collapseInlineReveal st))
                        (absorbedStart (doc st) r) (absorbedEnd (doc st) r)).
            \<forall>m. hasMark m c
                  = neighboursShare (doc st) (absorbedStart (doc st) r) (absorbedEnd (doc st) r) m)"
proof -
  define d where "d = doc st"
  define rs where "rs = absorbedStart d r"
  define re where "re = absorbedEnd d r"
  define xs where "xs = take (nat (rs - 1)) d"
  define ys where "ys = cellsBetween d rs re"
  define zs where "zs = drop (nat (re - 1)) d"
  have b: "1 \<le> rs" "rs \<le> re" "re \<le> int (length d) + 1"
    using absorbed_bounds[OF span] by (simp_all add: rs_def re_def d_def)
  have d: "d = xs @ ys @ zs" and rs: "rs = int (length xs) + 1"
    and re: "re = int (length xs) + int (length ys) + 1"
    using split_at_positions[OF b] by (simp_all add: xs_def ys_def zs_def)
  define new where "new = map (\<lambda>x. Cell x (marksAt (xs @ zs) rs Bold) (marksAt (xs @ zs) rs Italic))
                            (map ch ys)"
  have seg: "absorbedSegment d r = map ch ys"
    by (simp add: absorbedSegment_def textBetween_def ys_def rs_def re_def)
  have del: "deleteRange d rs re = xs @ zs"
    unfolding d rs re by (rule deleteRange_mid)
  have ins: "insertText (xs @ zs) (map ch ys) rs = xs @ new @ zs"
    unfolding rs new_def by (rule insertText_at)
  have res: "doc (collapseInlineReveal st) = xs @ new @ zs"
    using active unparsed seg del ins
    by (simp add: collapseInlineReveal_def Let_def d_def[symmetric] rs_def[symmetric] re_def[symmetric])
  have len: "length new = length ys" by (simp add: new_def)
  have chs: "map ch new = map ch ys" by (simp add: new_def comp_def)
  have mid: "cellsBetween (xs @ new @ zs) rs re = new"
    using cellsBetween_mid[of xs new zs] len by (simp add: rs re)
  have marks: "hasMark m c = neighboursShare d rs re m" if "c \<in> set new" for c m
  proof -
    from that obtain x where c: "c = Cell x (marksAt (xs @ zs) rs Bold) (marksAt (xs @ zs) rs Italic)"
      by (auto simp: new_def)
    have "neighboursShare d rs re m = marksAt (xs @ zs) rs m"
      unfolding d rs re by (simp only: neighboursShare_split marksAt_join)
    then show ?thesis using c by (cases m) simp_all
  qed
  have t1: "map ch (xs @ new @ zs) = map ch d" by (simp add: d chs)
  have t2: "textBetween (xs @ new @ zs) rs re = absorbedSegment d r"
    by (simp add: textBetween_def mid chs seg)
  have t3: "take (nat (rs - 1)) (xs @ new @ zs) = take (nat (rs - 1)) d"
    by (simp add: rs d)
  have t4: "drop (nat (re - 1)) (xs @ new @ zs) = drop (nat (re - 1)) d"
    using len by (simp add: re d)
  show ?thesis
    unfolding res d_def[symmetric] rs_def[symmetric] re_def[symmetric]
    using t1 t2 t3 t4 marks mid by simp
qed

theorem collapse_keeps_unparsed_text_witness:
  "map ch (doc (collapseInlineReveal brokenState)) = ''ab*c''
   \<and> textBetween (doc (collapseInlineReveal brokenState)) 2 4 = ''b*''
   \<and> drop 3 (doc (collapseInlineReveal brokenState)) = bolded ''c''"
proof -
  let ?r = "revealOf Italic ''*'' 2 4"
  have a: "activeInlineReveal brokenState = Some ?r" by (simp add: brokenState_def)
  have s: "1 \<le> start ?r" "start ?r \<le> endPos ?r" "endPos ?r \<le> int (length (doc brokenState)) + 1"
    by (simp_all add: revealOf_def brokenState_def editorAt_def bolded_def italicised_def plain_def)
  have u: "parseSegment (markName ?r) (absorbedSegment (doc brokenState) ?r) = None"
    by code_simp
  have e: "absorbedStart (doc brokenState) ?r = 2" "absorbedEnd (doc brokenState) ?r = 4"
    "absorbedSegment (doc brokenState) ?r = ''b*''"
    "map ch (doc brokenState) = ''ab*c''"
    "drop 3 (doc brokenState) = bolded ''c''"
    by code_simp+
  from collapse_keeps_unparsed_text[OF a s u] show ?thesis
    by (simp add: e)
qed

text \<open>
  Claim C3, as first stated, has the re-inserted text without Bold or Italic. In
  \<open>brokenState\<close> an italic reveal has lost its opening marker: its span reads \<open>b*\<close>, which
  no pattern matches, between a bold \<open>a\<close> and a bold \<open>c\<close>. After collapse the whole text
  \<open>ab*c\<close> is bold: the re-inserted \<open>b*\<close> took the mark its two neighbours share.
\<close>

theorem collapse_unparsed_between_bold_counterexample:
  "parseSegment Italic (absorbedSegment (doc brokenState) (revealOf Italic ''*'' 2 4)) = None
   \<and> textBetween (doc brokenState) 2 4 = ''b*''
   \<and> doc (collapseInlineReveal brokenState) = bolded ''ab*c''"
  by code_simp

text \<open>
  Claim C6, as amended. Take an active reveal whose segment gives a shape
  \<open>(target, leftLen, rightLen)\<close> different from the recorded one. If the reveal's kind is
  Bold, reconcile removes Bold and Italic from the whole span, marks the inner region
  \<open>[start + leftLen, end - rightLen)\<close> with the derived kind (nothing when that region is
  empty; it is never inverted), records the shape and reports a change
  (\<open>reannotated\<close> states the new marks character by character); and after an edit, that
  is an untagged transaction that changed the document, outside source mode,
  \<open>syncInlineReveal\<close> returns exactly this state, the span having been mapped through
  the transaction first. If the reveal's kind is Italic, reconcile changes nothing.
\<close>

theorem reconcile_bold_reveal:
  assumes "activeInlineReveal st = Some r"
    and "deriveShape (textBetween (doc st) (start r) (endPos r)) = Some (target, l, rr)"
    and "\<not> (semantic r = Some target \<and> leftLen r = Some l \<and> rightLen r = Some rr)"
  shows "(markName r = Bold \<longrightarrow>
            reconcileActiveBoldRevealMarks st
              = (True, st\<lparr>doc := reannotated (doc st) (start r) (endPos r) target l rr,
                          activeInlineReveal :=
                            Some (r\<lparr>semantic := Some target, leftLen := Some l, rightLen := Some rr\<rparr>),
                          syncingInlineReveal := False\<rparr>))
       \<and> (markName r = Italic \<longrightarrow> reconcileActiveBoldRevealMarks st = (False, st))
       \<and> (\<forall>st0 tr gmr now.
             markName r = Bold \<and> noteDocChange st0 (Some tr) = st
             \<and> \<not> syncingInlineReveal st0 \<and> \<not> isSourceMode st0
             \<and> docChanged tr \<and> \<not> metaSync tr \<longrightarrow>
             syncInlineReveal gmr now st0 (Some tr)
               = (None, snd (reconcileActiveBoldRevealMarks st)))"
proof -
  note fits = deriveShape_fits[OF assms(2)]
  have main: "markName r = Bold \<Longrightarrow>
            reconcileActiveBoldRevealMarks st
              = (True, st\<lparr>doc := reannotated (doc st) (start r) (endPos r) target l rr,
                          activeInlineReveal :=
                            Some (r\<lparr>semantic := Some target, leftLen := Some l, rightLen := Some rr\<rparr>),
                          syncingInlineReveal := False\<rparr>)"
    using assms fits(1) reannotated_eq[OF fits, of "doc st" target]
    by (auto simp: reconcileActiveBoldRevealMarks_def Let_def)
  have it: "markName r = Italic \<Longrightarrow> reconcileActiveBoldRevealMarks st = (False, st)"
    using assms(1) by (simp add: reconcileActiveBoldRevealMarks_def)
  have sync: "syncInlineReveal gmr now st0 (Some tr)
                = (None, snd (reconcileActiveBoldRevealMarks st))"
    if "markName r = Bold" "noteDocChange st0 (Some tr) = st"
       "\<not> syncingInlineReveal st0" "\<not> isSourceMode st0" "docChanged tr" "\<not> metaSync tr"
    for st0 tr gmr now
    using that main[OF that(1)] assms(1)
    by (simp add: syncInlineReveal_def isMeta_def changed_def Let_def)
  show ?thesis using main it sync by blast
qed

theorem reconcile_bold_reveal_witness:
  "reconcileActiveBoldRevealMarks (noteDocChange boldReveal (Some deleteFirst))
     = (True, (noteDocChange boldReveal (Some deleteFirst))
                \<lparr>doc := plain ''*'' @ italicised ''ab*'' @ plain ''*'',
                 activeInlineReveal :=
                   Some ((revealOf Bold ''**'' 1 6)
                           \<lparr>semantic := Some Italic, leftLen := Some 1, rightLen := Some 1\<rparr>)\<rparr>)
   \<and> fst (syncInlineReveal markRunAt 0 boldReveal (Some deleteFirst)) = None
   \<and> doc (snd (syncInlineReveal markRunAt 0 boldReveal (Some deleteFirst)))
       = plain ''*'' @ italicised ''ab*'' @ plain ''*''"
proof -
  let ?st = "noteDocChange boldReveal (Some deleteFirst)"
  let ?r = "revealOf Bold ''**'' 1 6"
  have a: "activeInlineReveal ?st = Some ?r" by code_simp
  have d: "deriveShape (textBetween (doc ?st) (start ?r) (endPos ?r)) = Some (Italic, 1, 1)"
    by code_simp
  have n: "\<not> (semantic ?r = Some Italic \<and> leftLen ?r = Some 1 \<and> rightLen ?r = Some 1)"
    by (simp add: revealOf_def)
  have m: "markName ?r = Bold" by (simp add: revealOf_def)
  have re: "reannotated (doc ?st) (start ?r) (endPos ?r) Italic 1 1
              = plain ''*'' @ italicised ''ab*'' @ plain ''*''"
    by code_simp
  have f: "\<not> syncingInlineReveal boldReveal" "\<not> isSourceMode boldReveal"
    "docChanged deleteFirst" "\<not> metaSync deleteFirst" "\<not> syncingInlineReveal ?st"
    by (simp_all add: boldReveal_def editorAt_def deleteFirst_def noteDocChange_def)
  note t = reconcile_bold_reveal[OF a d n]
  from t m have r1: "reconcileActiveBoldRevealMarks ?st
      = (True, ?st\<lparr>doc := reannotated (doc ?st) (start ?r) (endPos ?r) Italic 1 1,
                    activeInlineReveal :=
                      Some (?r\<lparr>semantic := Some Italic, leftLen := Some 1, rightLen := Some 1\<rparr>),
                    syncingInlineReveal := False\<rparr>)"
    by blast
  from t m f have r2: "syncInlineReveal markRunAt 0 boldReveal (Some deleteFirst)
                         = (None, snd (reconcileActiveBoldRevealMarks ?st))"
    by blast
  have same: "?st\<lparr>syncingInlineReveal := False\<rparr> = ?st"
    using f(5) by simp
  show ?thesis
    using r1 r2 re f(5) by (simp add: same)
qed

text \<open>
  Claim C6, as first stated, holds the same for an Italic reveal. In \<open>italicReveal\<close> an
  italic reveal was recorded with one marker on each side and its span now reads
  \<open>**ab**\<close>, the shape of Bold with two markers on each side. Reconcile reports no change
  and leaves \<open>ab\<close> italic, where the claim has Italic removed and \<open>ab\<close> bold.
\<close>

theorem reconcile_skips_italic_reveal_counterexample:
  "activeInlineReveal italicReveal = Some (revealOf Italic ''*'' 1 7)
   \<and> deriveShape (textBetween (doc italicReveal) 1 7) = Some (Bold, 2, 2)
   \<and> semantic (revealOf Italic ''*'' 1 7) = Some Italic
   \<and> reconcileActiveBoldRevealMarks italicReveal = (False, italicReveal)
   \<and> doc (snd (reconcileActiveBoldRevealMarks italicReveal))
       \<noteq> reannotated (doc italicReveal) 1 7 Bold 2 2"
  by code_simp

text \<open>
  Claim C7, as amended. The handlers \<open>compositionstart\<close> and \<open>compositionend\<close> only set and
  clear \<open>_wysiwygComposing\<close>, and the state machine does not read it: a composition
  suspends nothing. On every notification \<open>syncInlineReveal\<close> raises the same error, if
  any, and leaves the same state during a composition as outside one, the flag apart.
  So during a composition a selection notification with the caret on a candidate and no
  active reveal expands it; one with the selection outside the span of the active reveal
  collapses it; and an edit inside a reveal whose shape has changed reconciles it. (The
  conditions are those of the function: no key typed or deleted in the last 220 ms for a
  selection notification, the expand not suppressed, the reveal not just expanded.) At
  all times the state machine is at rest when \<open>_syncingInlineReveal\<close> is set, in source
  mode, and on a transaction that carries its own tag.
\<close>

theorem sync_ignores_composition:
  "fst (syncInlineReveal gmr now (compositionstart st) tr) = fst (syncInlineReveal gmr now st tr)
   \<and> snd (syncInlineReveal gmr now (compositionstart st) tr)
         = compositionstart (snd (syncInlineReveal gmr now st tr))
   \<and> fst (syncInlineReveal gmr now (compositionend st) tr) = fst (syncInlineReveal gmr now st tr)
   \<and> snd (syncInlineReveal gmr now (compositionend st) tr)
         = compositionend (snd (syncInlineReveal gmr now st tr))
   \<and> (wysiwygComposing st \<and> \<not> syncingInlineReveal st \<and> \<not> isSourceMode st
        \<and> activeInlineReveal st = None \<and> selFrom st = selTo st
        \<and> \<not> inlineRevealSuppressNextSelectionExpand st \<and> \<not> typedJustNow now st None
        \<and> findRevealCandidate gmr st = Some c \<and> 1 \<le> rangeFrom c
        \<and> expandInlineReveal st c = Inr st' \<longrightarrow>
        syncInlineReveal gmr now st None = (None, st') \<and> wysiwygComposing st')
   \<and> (wysiwygComposing st \<and> \<not> syncingInlineReveal st \<and> \<not> isSourceMode st
        \<and> activeInlineReveal st = Some r \<and> \<not> inlineRevealJustExpanded st
        \<and> \<not> typedJustNow now st None
        \<and> (selFrom st \<noteq> selTo st \<or> selFrom st < start r \<or> endPos r < selFrom st) \<longrightarrow>
        syncInlineReveal gmr now st None = (None, collapseInlineReveal st)
        \<and> wysiwygComposing (collapseInlineReveal st))
   \<and> (wysiwygComposing st \<and> \<not> syncingInlineReveal st \<and> \<not> isSourceMode st
        \<and> activeInlineReveal st \<noteq> None \<and> docChanged edit \<and> \<not> metaSync edit
        \<and> fst (reconcileActiveBoldRevealMarks (noteDocChange st (Some edit))) \<longrightarrow>
        syncInlineReveal gmr now st (Some edit)
          = (None, snd (reconcileActiveBoldRevealMarks (noteDocChange st (Some edit))))
        \<and> wysiwygComposing (snd (reconcileActiveBoldRevealMarks (noteDocChange st (Some edit)))))
   \<and> (syncingInlineReveal st \<or> isSourceMode st \<or> isMeta tr \<longrightarrow>
        fst (syncInlineReveal gmr now st tr) = None
        \<and> doc (snd (syncInlineReveal gmr now st tr)) = doc st
        \<and> selFrom (snd (syncInlineReveal gmr now st tr)) = selFrom st
        \<and> selTo (snd (syncInlineReveal gmr now st tr)) = selTo st
        \<and> activeInlineReveal (snd (syncInlineReveal gmr now st tr)) = activeInlineReveal st)"
proof -
  have frame: "fst (syncInlineReveal gmr now (st\<lparr>wysiwygComposing := b\<rparr>) tr)
                 = fst (syncInlineReveal gmr now st tr)
               \<and> snd (syncInlineReveal gmr now (st\<lparr>wysiwygComposing := b\<rparr>) tr)
                 = (snd (syncInlineReveal gmr now st tr))\<lparr>wysiwygComposing := b\<rparr>" for b
    using sync_composing[where gmr = gmr and now = now and st = st and b = b and tr = tr]
    by simp
  have c1: "fst (syncInlineReveal gmr now (compositionstart st) tr)
              = fst (syncInlineReveal gmr now st tr)"
    and c2: "snd (syncInlineReveal gmr now (compositionstart st) tr)
              = compositionstart (snd (syncInlineReveal gmr now st tr))"
    using frame[of True] by (simp_all add: compositionstart_def)
  have c3: "fst (syncInlineReveal gmr now (compositionend st) tr)
              = fst (syncInlineReveal gmr now st tr)"
    and c4: "snd (syncInlineReveal gmr now (compositionend st) tr)
              = compositionend (snd (syncInlineReveal gmr now st tr))"
    using frame[of False] by (simp_all add: compositionend_def)
  have set: "st\<lparr>wysiwygComposing := True\<rparr> = st" if "wysiwygComposing st"
    using that by (cases st) simp
  have kept: "wysiwygComposing s" if "s = t\<lparr>wysiwygComposing := True\<rparr>" for s t :: editor
    using that by simp
  have ex: "wysiwygComposing st'" if "wysiwygComposing st" "expandInlineReveal st c = Inr st'"
  proof -
    have "expandInlineReveal st c
                 = map_sum id (\<lambda>s. s\<lparr>wysiwygComposing := True\<rparr>) (expandInlineReveal st c)"
      using composing_expand[where st = st and b = True and c = c] set[OF that(1)] by simp
    then have "Inr st' = (Inr (st'\<lparr>wysiwygComposing := True\<rparr>) :: error + editor)"
      using that(2) by simp
    then have "st' = st'\<lparr>wysiwygComposing := True\<rparr>" by simp
    then show ?thesis by (rule kept)
  qed
  have c5: "wysiwygComposing st \<and> \<not> syncingInlineReveal st \<and> \<not> isSourceMode st
        \<and> activeInlineReveal st = None \<and> selFrom st = selTo st
        \<and> \<not> inlineRevealSuppressNextSelectionExpand st \<and> \<not> typedJustNow now st None
        \<and> findRevealCandidate gmr st = Some c \<and> 1 \<le> rangeFrom c
        \<and> expandInlineReveal st c = Inr st' \<longrightarrow>
        syncInlineReveal gmr now st None = (None, st') \<and> wysiwygComposing st'"
    using sync_expands[where gmr = gmr and now = now and st = st and c = c and st' = st'] ex
    by blast
  have co: "wysiwygComposing (collapseInlineReveal st)" if "wysiwygComposing st"
  proof -
    have "collapseInlineReveal st = (collapseInlineReveal st)\<lparr>wysiwygComposing := True\<rparr>"
      using composing_collapse[where st = st and b = True] set[OF that] by simp
    then show ?thesis by (rule kept)
  qed
  have c6: "wysiwygComposing st \<and> \<not> syncingInlineReveal st \<and> \<not> isSourceMode st
        \<and> activeInlineReveal st = Some r \<and> \<not> inlineRevealJustExpanded st
        \<and> \<not> typedJustNow now st None
        \<and> (selFrom st \<noteq> selTo st \<or> selFrom st < start r \<or> endPos r < selFrom st) \<longrightarrow>
        syncInlineReveal gmr now st None = (None, collapseInlineReveal st)
        \<and> wysiwygComposing (collapseInlineReveal st)"
    using sync_collapses[where gmr = gmr and now = now and st = st and r = r] co
    by blast
  have re: "wysiwygComposing (snd (reconcileActiveBoldRevealMarks (noteDocChange st (Some edit))))"
    if "wysiwygComposing st"
  proof -
    have "noteDocChange st (Some edit) = (noteDocChange st (Some edit))\<lparr>wysiwygComposing := True\<rparr>"
      using composing_noteDocChange[where st = st and b = True and tr = "Some edit"] set[OF that]
      by simp
    then have "reconcileActiveBoldRevealMarks (noteDocChange st (Some edit))
                 = reconcileActiveBoldRevealMarks
                     ((noteDocChange st (Some edit))\<lparr>wysiwygComposing := True\<rparr>)"
      by simp
    then have "reconcileActiveBoldRevealMarks (noteDocChange st (Some edit))
                 = (fst (reconcileActiveBoldRevealMarks (noteDocChange st (Some edit))),
                    (snd (reconcileActiveBoldRevealMarks (noteDocChange st (Some edit))))
                      \<lparr>wysiwygComposing := True\<rparr>)"
      unfolding composing_reconcile[where st = "noteDocChange st (Some edit)" and b = True] .
    then have "snd (reconcileActiveBoldRevealMarks (noteDocChange st (Some edit)))
                 = snd (fst (reconcileActiveBoldRevealMarks (noteDocChange st (Some edit))),
                        (snd (reconcileActiveBoldRevealMarks (noteDocChange st (Some edit))))
                          \<lparr>wysiwygComposing := True\<rparr>)"
      by (rule arg_cong[where f = snd])
    then have "snd (reconcileActiveBoldRevealMarks (noteDocChange st (Some edit)))
                 = (snd (reconcileActiveBoldRevealMarks (noteDocChange st (Some edit))))
                     \<lparr>wysiwygComposing := True\<rparr>"
      by (simp only: snd_conv)
    then show ?thesis by (rule kept)
  qed
  have c7: "wysiwygComposing st \<and> \<not> syncingInlineReveal st \<and> \<not> isSourceMode st
        \<and> activeInlineReveal st \<noteq> None \<and> docChanged edit \<and> \<not> metaSync edit
        \<and> fst (reconcileActiveBoldRevealMarks (noteDocChange st (Some edit))) \<longrightarrow>
        syncInlineReveal gmr now st (Some edit)
          = (None, snd (reconcileActiveBoldRevealMarks (noteDocChange st (Some edit))))
        \<and> wysiwygComposing (snd (reconcileActiveBoldRevealMarks (noteDocChange st (Some edit))))"
    using sync_reconciles[where gmr = gmr and now = now and st = st and tr = edit] re
    by blast
  have c8: "syncingInlineReveal st \<or> isSourceMode st \<or> isMeta tr \<longrightarrow>
        fst (syncInlineReveal gmr now st tr) = None
        \<and> doc (snd (syncInlineReveal gmr now st tr)) = doc st
        \<and> selFrom (snd (syncInlineReveal gmr now st tr)) = selFrom st
        \<and> selTo (snd (syncInlineReveal gmr now st tr)) = selTo st
        \<and> activeInlineReveal (snd (syncInlineReveal gmr now st tr)) = activeInlineReveal st"
    using sync_suspended[where gmr = gmr and now = now and st = st and tr = tr]
    by blast
  show ?thesis
    by (intro conjI c1 c2 c3 c4 c5 c6 c7 c8)
qed

theorem sync_ignores_composition_witness:
  "expandInlineReveal (compositionstart (editorAt sampleDoc 4 4)) (mkCandidate Bold (3, 5))
     = Inr (compositionstart
              ((editorAt (plain ''ab**'' @ bolded ''cd'' @ plain ''**e'') 6 6)
                 \<lparr>activeInlineReveal := Some (revealOf Bold ''**'' 3 9),
                  inlineRevealJustExpanded := True\<rparr>))
   \<and> syncInlineReveal markRunAt 0 (compositionstart (editorAt sampleDoc 4 4)) None
     = (None, compositionstart
                ((editorAt (plain ''ab**'' @ bolded ''cd'' @ plain ''**e'') 6 6)
                   \<lparr>activeInlineReveal := Some (revealOf Bold ''**'' 3 9),
                    inlineRevealJustExpanded := True\<rparr>))
   \<and> doc (snd (syncInlineReveal markRunAt 0 ((editorAt sampleDoc 4 4)\<lparr>isSourceMode := True\<rparr>) None))
       = sampleDoc
   \<and> activeInlineReveal
        (snd (syncInlineReveal markRunAt 0 ((editorAt sampleDoc 4 4)\<lparr>isSourceMode := True\<rparr>) None))
       = None"
proof -
  let ?a = "compositionstart (editorAt sampleDoc 4 4)"
  let ?c = "mkCandidate Bold (3, 5)"
  let ?e = "compositionstart
              ((editorAt (plain ''ab**'' @ bolded ''cd'' @ plain ''**e'') 6 6)
                 \<lparr>activeInlineReveal := Some (revealOf Bold ''**'' 3 9),
                  inlineRevealJustExpanded := True\<rparr>)"
  let ?s = "(editorAt sampleDoc 4 4)\<lparr>isSourceMode := True\<rparr>"
  have h: "wysiwygComposing ?a" "\<not> syncingInlineReveal ?a" "\<not> isSourceMode ?a"
    "activeInlineReveal ?a = None" "selFrom ?a = selTo ?a"
    "\<not> inlineRevealSuppressNextSelectionExpand ?a" "\<not> typedJustNow 0 ?a None"
    by (simp_all add: compositionstart_def editorAt_def typedJustNow_def recentKey_def)
  have f: "findRevealCandidate markRunAt ?a = Some ?c" "1 \<le> rangeFrom ?c" by code_simp+
  have x: "expandInlineReveal ?a ?c = Inr ?e" by code_simp
  have a: "syncingInlineReveal ?s \<or> isSourceMode ?s \<or> isMeta None" by simp
  have b: "doc ?s = sampleDoc" "activeInlineReveal ?s = None" by (simp_all add: editorAt_def)
  from sync_ignores_composition[of markRunAt 0 ?a None ?c ?e] h f x
  have one: "syncInlineReveal markRunAt 0 ?a None = (None, ?e)" by simp
  from sync_ignores_composition[of markRunAt 0 ?s None] a b
  have two: "doc (snd (syncInlineReveal markRunAt 0 ?s None)) = sampleDoc
             \<and> activeInlineReveal (snd (syncInlineReveal markRunAt 0 ?s None)) = None"
    by simp
  from x one two show ?thesis by simp
qed

text \<open>
  Claim C7, as first stated, has the state machine at rest during a composition. In
  \<open>sampleDoc\<close> the caret is inside the bold \<open>cd\<close> and no reveal is active; a selection
  notification that arrives after \<open>compositionstart\<close> expands the reveal: the reveal
  state is set and the delimiters are in the document.
\<close>

theorem sync_during_composition_counterexample:
  "wysiwygComposing (compositionstart (editorAt sampleDoc 4 4))
   \<and> activeInlineReveal (compositionstart (editorAt sampleDoc 4 4)) = None
   \<and> fst (syncInlineReveal markRunAt 0 (compositionstart (editorAt sampleDoc 4 4)) None) = None
   \<and> activeInlineReveal
         (snd (syncInlineReveal markRunAt 0 (compositionstart (editorAt sampleDoc 4 4)) None))
       = Some (revealOf Bold ''**'' 3 9)
   \<and> doc (snd (syncInlineReveal markRunAt 0 (compositionstart (editorAt sampleDoc 4 4)) None))
       = plain ''ab**'' @ bolded ''cd'' @ plain ''**e''"
  by code_simp

end
